theory Spec2Isabelle
  imports Complex_Main "HOL-Library.Monad_Syntax"
begin

section \<open>Core types (core/types.ts)\<close>

text \<open>
  The TypeScript interfaces become records, the string-literal unions become datatypes.
  A JavaScript \<open>number\<close> is modelled by the exact value it stands for: grid coordinates,
  stack counts, treasury amounts and experience are whole numbers (\<open>int\<close>); unit statistics
  and movement points can be fractional (\<open>defense *= 1.5\<close>, road cost \<open>0.5\<close>) and are
  rationals (\<open>rat\<close>). Field names that would clash with a HOL constant or with a field of
  another record carry the record's name as a prefix.
  A \<open>Position\<close> \<open>{x, y}\<close> is the pair \<open>(x, y)\<close>.
\<close>

datatype TerrainType = grass | water | mountain | forest | desert | road

datatype PointOfInterestType = poi_town | poi_enemy_camp | poi_resource_node | poi_neutral_encounter

datatype ResourceType = rt_gold | rt_wood | rt_stone | rt_crystals

datatype UnitType = warrior | archer | cavalry | mage | healer

datatype FactionId = player | enemy_1 | enemy_2 | neutral

type_synonym Position = "int \<times> int"

record UnitStats =
  maxHp :: rat
  hp :: rat
  attack :: rat
  defense :: rat
  speed :: rat
  stat_range :: rat

record Unit =
  unit_id :: string
  unit_type :: UnitType
  unit_name :: string
  stats :: UnitStats
  unit_count :: int
  unit_experience :: int

record HeroBonuses =
  attackBonus :: int
  defenseBonus :: int
  movementBonus :: int
  moraleBonus :: int

record Hero =
  hero_id :: string
  hero_name :: string
  level :: int
  experience :: int
  experienceToNext :: int
  position :: Position
  movementPoints :: rat
  maxMovementPoints :: rat
  crew :: "Unit list"
  bonuses :: HeroBonuses
  factionId :: FactionId

record Resources =
  gold :: int
  wood :: int
  stone :: int
  crystals :: int

text \<open>\<open>Partial<Resources>\<close>: every key may be absent (\<open>undefined\<close>, here \<open>None\<close>).\<close>

record PartialResources =
  p_gold :: "int option"
  p_wood :: "int option"
  p_stone :: "int option"
  p_crystals :: "int option"

record UnitRecruitOption =
  unitType :: UnitType
  cost :: Resources
  available :: int
  maxPerWeek :: int

datatype BuildingEffectType = recruit_bonus | resource_bonus | defense_bonus

record Building =
  building_id :: string
  building_name :: string
  building_level :: int
  effects :: "(BuildingEffectType \<times> int) list"

text \<open>
  \<open>Town\<close> and \<open>EnemyCamp\<close> extend \<open>PointOfInterest\<close>; the fields a variant adds are
  optional fields of the one record (\<open>None\<close> where the object has no such key).
\<close>

record PointOfInterest =
  poi_id :: string
  poi_type :: PointOfInterestType
  poi_name :: string
  poi_position :: Position
  poi_factionId :: FactionId
  garrison :: "Unit list option"
  isDiscovered :: bool
  recruitPool :: "UnitRecruitOption list option"
  buildings :: "Building list option"
  poi_resources :: "Resources option"
  difficulty :: "int option"
  rewards :: "Resources option"

record ResourceNode =
  node_id :: string
  resourceType :: ResourceType
  node_position :: Position
  amountPerTurn :: int
  isOwned :: bool
  ownedBy :: "FactionId option"

text \<open>
  The movement cost of a tile is a number or \<open>Infinity\<close> (water).
\<close>

datatype Cost = Finite rat | Infinity

text \<open>
  Objects that the generator reaches along two paths are kept in a store and referred to by
  address: a point of interest is held both by \<open>worldMap.pointsOfInterest\<close> and by the tile
  at its position (\<open>tile.pointOfInterest = poi\<close> in \<open>generateWorld\<close>), a resource node
  likewise. Once the map is in the game store, the only write to a point of interest is
  that of \<open>recruitUnit\<close>, which reaches it through \<open>worldMap.pointsOfInterest\<close>, and no
  command reads a field of a point of interest through its tile (the write that \<open>moveHero\<close>
  attempts through the tile throws): for the tile the address says that a point of interest
  is there.
\<close>

type_synonym addr = nat

record Tile =
  tile_position :: Position
  terrain :: TerrainType
  elevation :: rat
  movementCost :: Cost
  isPassable :: bool
  pointOfInterest :: "addr option"
  resourceNode :: "addr option"

record Faction =
  faction_id :: FactionId
  faction_name :: string
  color :: string
  resources :: Resources
  heroes :: "Hero list"
  ownedTowns :: "string list"
  isAI :: bool

record WorldMap =
  width :: int
  height :: int
  tiles :: "Tile list list"
  poiStore :: "addr \<Rightarrow> PointOfInterest"
  pointsOfInterest :: "addr list"
  nodeStore :: "addr \<Rightarrow> ResourceNode"
  resourceNodes :: "addr list"
  seed :: string

datatype StatusEffectType = poison | stun | boost | shield

record StatusEffect =
  effect_type :: StatusEffectType
  duration :: int
  effect_value :: int

record CombatUnit = Unit +
  combatPosition :: Position
  hasActed :: bool
  isDefending :: bool
  statusEffects :: "StatusEffect list"

text \<open>
  The message of a log entry is the template string
  \<open>`${sourceUnit.name} deals ${damage} damage to ${targetUnit.name}`\<close>; the model keeps its
  three interpolated values. \<open>log_turn\<close> is the field \<open>turn\<close>.
\<close>

record CombatLogEntry =
  log_turn :: int
  message :: "string \<times> rat \<times> string"
  timestamp :: int

datatype Side = attacker_side | defender_side

datatype Defender = DefHero Hero | DefPoi PointOfInterest

text \<open>
  The store is built with the \<open>immer\<close> middleware: every write of \<open>executeCombatAction\<close>
  goes to a draft, and a draft is made for an object where it is reached. A unit reached
  through a roster and the same unit reached through \<open>turnOrder\<close> are two drafts, and after
  the call two objects: what is written to the unit of a roster never shows in \<open>turnOrder\<close>.
  So the units of the two rosters live in the store \<open>units\<close>, each at its address (the
  identity that \<open>find\<close>, \<open>includes\<close>, \<open>indexOf\<close> and \<open>splice\<close> compare), the rosters hold
  addresses, and \<open>turnOrder\<close> holds its own copies of the units as \<open>startCombat\<close> made them.
  \<open>currentUnitIndex\<close> is \<open>None\<close> for \<open>NaN\<close> (a remainder by the length of an empty
  \<open>turnOrder\<close>).
\<close>

record CombatState =
  isActive :: bool
  attacker :: Hero
  defender :: Defender
  units :: "addr \<Rightarrow> CombatUnit"
  attackerUnits :: "addr list"
  defenderUnits :: "addr list"
  currentTurn :: Side
  currentUnitIndex :: "int option"
  turnOrder :: "CombatUnit list"
  combatLog :: "CombatLogEntry list"
  gridWidth :: int
  gridHeight :: int

datatype GamePhase = phase_world_map | phase_combat | phase_town | phase_menu

datatype VictoryType = conquest | elimination | turns

record GameState =
  turn :: int
  currentFaction :: FactionId
  worldMap :: WorldMap
  factions :: "Faction list"
  combatState :: "CombatState option"
  selectedHeroId :: "string option"
  gamePhase :: GamePhase
  victoryCondition :: "VictoryType \<times> int option"
  isGameOver :: bool
  winner :: "FactionId option"

datatype WinnerSide = attacker_wins | defender_wins

record CombatResult =
  result_winner :: WinnerSide
  attackerLosses :: "(string \<times> int) list"
  defenderLosses :: "(string \<times> int) list"
  experienceGained :: int
  resourcesLooted :: Resources

datatype ActionType = act_move | act_attack | act_defend | act_wait | act_ability

record CombatAction =
  action_type :: ActionType
  sourceUnit :: string
  targetPosition :: "Position option"
  targetUnit :: "string option"

subsection \<open>Static tables\<close>

definition mk_template :: "UnitType \<Rightarrow> string \<Rightarrow> rat \<Rightarrow> rat \<Rightarrow> rat \<Rightarrow> rat \<Rightarrow> rat \<Rightarrow> Unit" where
  "mk_template ty nm h a d sp r =
     \<lparr>unit_id = [], unit_type = ty, unit_name = nm,
      stats = \<lparr>maxHp = h, hp = h, attack = a, defense = d, speed = sp, stat_range = r\<rparr>,
      unit_count = 1, unit_experience = 0\<rparr>"

text \<open>
  \<open>UNIT_TEMPLATES\<close> is a \<open>Record<UnitType, Omit<Unit, 'id'>>\<close>; every use spreads it into an
  object that sets \<open>id\<close>, so the template's \<open>unit_id\<close> is a placeholder.
\<close>

fun UNIT_TEMPLATES :: "UnitType \<Rightarrow> Unit" where
  "UNIT_TEMPLATES warrior = mk_template warrior ''Warrior'' 50 12 8 4 1"
| "UNIT_TEMPLATES archer = mk_template archer ''Archer'' 30 10 4 5 4"
| "UNIT_TEMPLATES cavalry = mk_template cavalry ''Cavalry'' 60 14 6 7 1"
| "UNIT_TEMPLATES mage = mk_template mage ''Mage'' 25 18 3 4 3"
| "UNIT_TEMPLATES healer = mk_template healer ''Healer'' 20 5 5 5 2"

fun TERRAIN_COSTS :: "TerrainType \<Rightarrow> Cost" where
  "TERRAIN_COSTS grass = Finite 1"
| "TERRAIN_COSTS road = Finite (1 / 2)"
| "TERRAIN_COSTS forest = Finite 2"
| "TERRAIN_COSTS desert = Finite (3 / 2)"
| "TERRAIN_COSTS mountain = Finite 3"
| "TERRAIN_COSTS water = Infinity"

fun TERRAIN_PASSABLE :: "TerrainType \<Rightarrow> bool" where
  "TERRAIN_PASSABLE grass = True"
| "TERRAIN_PASSABLE road = True"
| "TERRAIN_PASSABLE forest = True"
| "TERRAIN_PASSABLE desert = True"
| "TERRAIN_PASSABLE mountain = False"
| "TERRAIN_PASSABLE water = False"

section \<open>The seeded generator (utils/random.ts)\<close>

text \<open>
  A draw of a pseudo-random generator (\<open>seedrandom\<close>, \<open>Math.random\<close>) is a number in
  \<open>[0, 1)\<close>. The generator library itself is not part of the repository: a generator is
  the stream of the draws it will return, with the number of draws made so far, and the
  map from a seed string to its stream is a parameter \<open>seedrandom\<close> of the functions that
  construct a generator.
\<close>

typedef draw = "{r :: rat. 0 \<le> r \<and> r < 1}"
  morphisms draw_value Draw
  by (rule exI[of _ 0]) simp

setup_lifting type_definition_draw

lift_definition draw_of :: "nat \<Rightarrow> nat \<Rightarrow> draw" is
  "\<lambda>k n. if k < n then of_nat k / of_nat n else 0"
  by (simp add: divide_less_eq)

datatype error = TypeError

record SeededRandom =
  stream :: "nat \<Rightarrow> draw"
  calls :: nat

definition newSeededRandom :: "(string \<Rightarrow> nat \<Rightarrow> draw) \<Rightarrow> string \<Rightarrow> SeededRandom" where
  "newSeededRandom seedrandom sd = \<lparr>stream = seedrandom sd, calls = 0\<rparr>"

definition random :: "SeededRandom \<Rightarrow> rat \<times> SeededRandom" where
  "random rng = (draw_value (stream rng (calls rng)), rng\<lparr>calls := Suc (calls rng)\<rparr>)"

definition randomInt :: "int \<Rightarrow> int \<Rightarrow> SeededRandom \<Rightarrow> int \<times> SeededRandom" where
  "randomInt lo hi rng = (let (r, rng') = random rng in (\<lfloor>r * of_int (hi - lo)\<rfloor> + lo, rng'))"

definition randomFloat :: "rat \<Rightarrow> rat \<Rightarrow> SeededRandom \<Rightarrow> rat \<times> SeededRandom" where
  "randomFloat lo hi rng = (let (r, rng') = random rng in (r * (hi - lo) + lo, rng'))"

text \<open>
  \<open>array[this.randomInt(0, array.length)]\<close>; every caller passes a non-empty array, and
  the index is then in range.
\<close>

definition randomElement :: "'a list \<Rightarrow> SeededRandom \<Rightarrow> 'a \<times> SeededRandom" where
  "randomElement array rng =
     (let (i, rng') = randomInt 0 (int (length array)) rng in (array ! nat i, rng'))"

definition swap :: "nat \<Rightarrow> nat \<Rightarrow> 'a list \<Rightarrow> 'a list" where
  "swap i j xs = xs[i := xs ! j, j := xs ! i]"

text \<open>\<open>shuffleLoop k\<close> runs the Fisher-Yates loop for \<open>i = k, k - 1, ..., 1\<close>.\<close>

fun shuffleLoop :: "nat \<Rightarrow> 'a list \<Rightarrow> SeededRandom \<Rightarrow> 'a list \<times> SeededRandom" where
  "shuffleLoop 0 result rng = (result, rng)"
| "shuffleLoop (Suc k) result rng =
     (let (j, rng') = randomInt 0 (int (Suc k) + 1) rng
      in shuffleLoop k (swap (Suc k) (nat j) result) rng')"

definition shuffle :: "'a list \<Rightarrow> SeededRandom \<Rightarrow> 'a list \<times> SeededRandom" where
  "shuffle array rng = shuffleLoop (length array - 1) array rng"

definition chance :: "rat \<Rightarrow> SeededRandom \<Rightarrow> bool \<times> SeededRandom" where
  "chance probability rng = (let (r, rng') = random rng in (r < probability, rng'))"

definition id_chars :: string where
  "id_chars = ''abcdefghijklmnopqrstuvwxyz0123456789''"

fun randomIdLoop :: "nat \<Rightarrow> string \<Rightarrow> SeededRandom \<Rightarrow> string \<times> SeededRandom" where
  "randomIdLoop 0 result rng = (result, rng)"
| "randomIdLoop (Suc n) result rng =
     (let (i, rng') = randomInt 0 (int (length id_chars)) rng
      in randomIdLoop n (result @ [id_chars ! nat i]) rng')"

definition randomId :: "SeededRandom \<Rightarrow> string \<times> SeededRandom" where
  "randomId rng = randomIdLoop 8 [] rng"

definition pickMultiple :: "'a list \<Rightarrow> nat \<Rightarrow> SeededRandom \<Rightarrow> 'a list \<times> SeededRandom" where
  "pickMultiple array n rng =
     (let (shuffled, rng') = shuffle array rng in (take (min n (length array)) shuffled, rng'))"

text \<open>\<open>String(n)\<close> for a whole number, as in \<open>Date.now().toString()\<close>.\<close>

fun natToString :: "nat \<Rightarrow> string" where
  "natToString n =
     (if n < 10 then [''0123456789'' ! n]
      else natToString (n div 10) @ [''0123456789'' ! (n mod 10)])"

definition intToString :: "int \<Rightarrow> string" where
  "intToString i = (if i < 0 then CHR ''-'' # natToString (nat (- i)) else natToString (nat i))"

section \<open>The game store (store/gameStore.ts)\<close>

text \<open>
  The store is a state value; \<open>get()\<close> reads it and \<open>set(f)\<close> replaces it by the state
  that the mutations of \<open>f\<close> produce on a draft of it (\<open>create(immer(...))\<close>). The state
  that \<open>get()\<close> returns is frozen: a write to an object read from it, and not from the
  draft, throws a \<open>TypeError\<close>, and a callback that throws leaves the state as it was. A
  command is a function from the state to its return value and the new state, or to the
  error it throws. \<open>xs.find(p)\<close> followed by writes to the object found is \<open>update_first\<close>:
  the first element that satisfies \<open>p\<close> is replaced.
\<close>

fun update_first :: "('a \<Rightarrow> bool) \<Rightarrow> ('a \<Rightarrow> 'a) \<Rightarrow> 'a list \<Rightarrow> 'a list" where
  "update_first P f [] = []"
| "update_first P f (x # xs) = (if P x then f x # xs else x # update_first P f xs)"

text \<open>\<open>findIndex\<close> and \<open>indexOf\<close>: the first index, or \<open>-1\<close>.\<close>

fun findIndex :: "('a \<Rightarrow> bool) \<Rightarrow> 'a list \<Rightarrow> int" where
  "findIndex P [] = -1"
| "findIndex P (x # xs) =
     (if P x then 0 else (let i = findIndex P xs in if i < 0 then -1 else i + 1))"

definition indexOf :: "'a list \<Rightarrow> 'a \<Rightarrow> int" where
  "indexOf xs v = findIndex (\<lambda>u. u = v) xs"

definition getHero :: "GameState \<Rightarrow> string \<Rightarrow> Hero option" where
  "getHero s heroId = find (\<lambda>h. hero_id h = heroId) (concat (map heroes (factions s)))"

definition getFaction :: "GameState \<Rightarrow> FactionId \<Rightarrow> Faction option" where
  "getFaction s fid = find (\<lambda>f. faction_id f = fid) (factions s)"

subsection \<open>addResources and spendResources\<close>

text \<open>
  \<open>if (resources.gold) r.gold += resources.gold\<close>: the write happens for a key that is
  present and not zero.
\<close>

definition truthy :: "int option \<Rightarrow> bool" where
  "truthy v = (case v of None \<Rightarrow> False | Some n \<Rightarrow> n \<noteq> 0)"

definition add_partial :: "PartialResources \<Rightarrow> Resources \<Rightarrow> Resources" where
  "add_partial req r =
     \<lparr>gold = (if truthy (p_gold req) then gold r + the (p_gold req) else gold r),
      wood = (if truthy (p_wood req) then wood r + the (p_wood req) else wood r),
      stone = (if truthy (p_stone req) then stone r + the (p_stone req) else stone r),
      crystals = (if truthy (p_crystals req) then crystals r + the (p_crystals req) else crystals r)\<rparr>"

definition sub_partial :: "PartialResources \<Rightarrow> Resources \<Rightarrow> Resources" where
  "sub_partial req r =
     \<lparr>gold = (if truthy (p_gold req) then gold r - the (p_gold req) else gold r),
      wood = (if truthy (p_wood req) then wood r - the (p_wood req) else wood r),
      stone = (if truthy (p_stone req) then stone r - the (p_stone req) else stone r),
      crystals = (if truthy (p_crystals req) then crystals r - the (p_crystals req) else crystals r)\<rparr>"

definition addResources :: "FactionId \<Rightarrow> PartialResources \<Rightarrow> GameState \<Rightarrow> GameState" where
  "addResources fid req s =
     s\<lparr>factions := update_first (\<lambda>f. faction_id f = fid)
          (\<lambda>f. f\<lparr>resources := add_partial req (resources f)\<rparr>) (factions s)\<rparr>"

text \<open>\<open>resources.gold === undefined || faction.resources.gold >= resources.gold\<close>.\<close>

definition covers :: "int \<Rightarrow> int option \<Rightarrow> bool" where
  "covers have v = (case v of None \<Rightarrow> True | Some n \<Rightarrow> have \<ge> n)"

definition canAfford :: "Resources \<Rightarrow> PartialResources \<Rightarrow> bool" where
  "canAfford r req =
     (covers (gold r) (p_gold req) \<and> covers (wood r) (p_wood req) \<and>
      covers (stone r) (p_stone req) \<and> covers (crystals r) (p_crystals req))"

definition spendResources :: "FactionId \<Rightarrow> PartialResources \<Rightarrow> GameState \<Rightarrow> bool \<times> GameState" where
  "spendResources fid req s =
     (case getFaction s fid of
        None \<Rightarrow> (False, s)
      | Some faction \<Rightarrow>
          if \<not> canAfford (resources faction) req then (False, s)
          else (True,
                s\<lparr>factions := update_first (\<lambda>f. faction_id f = fid)
                     (\<lambda>f. f\<lparr>resources := sub_partial req (resources f)\<rparr>) (factions s)\<rparr>))"

subsection \<open>Queries\<close>

definition getTileAt :: "GameState \<Rightarrow> Position \<Rightarrow> Tile option" where
  "getTileAt s pos =
     (let wm = worldMap s in
      if fst pos < 0 \<or> fst pos \<ge> width wm \<or> snd pos < 0 \<or> snd pos \<ge> height wm then None
      else if nat (snd pos) < length (tiles wm)
           then (let row = tiles wm ! nat (snd pos)
                 in if nat (fst pos) < length row then Some (row ! nat (fst pos)) else None)
           else None)"

text \<open>
  One turn of the four-neighbour loop of \<open>getMovementRange\<close>: the entries pushed for the
  neighbours of \<open>pos\<close>, reached at cost \<open>c\<close>. \<open>Infinity\<close> is above every number of movement
  points.
\<close>

definition neighbors :: "Position \<Rightarrow> Position list" where
  "neighbors pos =
     [(fst pos + 1, snd pos), (fst pos - 1, snd pos), (fst pos, snd pos + 1), (fst pos, snd pos - 1)]"

definition pushNeighbor :: "GameState \<Rightarrow> rat \<Rightarrow> rat \<Rightarrow> Position \<Rightarrow> (Position \<times> rat) list" where
  "pushNeighbor s mp c neighbor =
     (case getTileAt s neighbor of
        None \<Rightarrow> []
      | Some tile \<Rightarrow>
          if isPassable tile
          then (case movementCost tile of
                  Infinity \<Rightarrow> []
                | Finite k \<Rightarrow> (let newCost = c + k in if newCost \<le> mp then [(neighbor, newCost)] else []))
          else [])"

definition inBounds :: "GameState \<Rightarrow> Position set" where
  "inBounds s = {0 ..< width (worldMap s)} \<times> {0 ..< height (worldMap s)}"

text \<open>
  The \<open>while (queue.length > 0)\<close> loop. \<open>visited\<close> is the \<open>Set\<close> of keys \<open>"x,y"\<close>, kept
  here as the list of the positions themselves.
\<close>

function rangeLoop ::
  "GameState \<Rightarrow> Position \<Rightarrow> rat \<Rightarrow> (Position \<times> rat) list \<Rightarrow> Position list \<Rightarrow> Position list
    \<Rightarrow> Position list" where
  "rangeLoop s origin mp [] visited reachable = reachable"
| "rangeLoop s origin mp (current # rest) visited reachable =
     (if fst current \<in> set visited then rangeLoop s origin mp rest visited reachable
      else if snd current \<le> mp
           then rangeLoop s origin mp
                  (rest @ concat (map (pushNeighbor s mp (snd current)) (neighbors (fst current))))
                  (fst current # visited)
                  (if fst current \<noteq> origin then reachable @ [fst current] else reachable)
           else rangeLoop s origin mp rest (fst current # visited) reachable)"
  by pat_completeness auto
termination
proof (relation "inv_image (less_than <*lex*> less_than)
    (\<lambda>(s, origin, mp, queue, visited, reachable).
       (card ((inBounds s \<union> fst ` set queue) - set visited), length queue))")
  show "wf (inv_image (less_than <*lex*> less_than)
    (\<lambda>(s, origin, mp, queue, visited, reachable).
       (card ((inBounds s \<union> fst ` set queue) - set visited), length queue)))"
    by (intro wf_inv_image wf_lex_prod wf_less_than)
next
  fix s :: GameState and origin :: Position and mp :: rat and current :: "Position \<times> rat"
    and rest :: "(Position \<times> rat) list" and visited reachable :: "Position list"
  assume "fst current \<in> set visited"
  then have "(inBounds s \<union> fst ` set (current # rest)) - set visited
           = (inBounds s \<union> fst ` set rest) - set visited"
    by auto
  then show "((s, origin, mp, rest, visited, reachable),
              (s, origin, mp, current # rest, visited, reachable))
    \<in> inv_image (less_than <*lex*> less_than)
        (\<lambda>(s, origin, mp, queue, visited, reachable).
           (card ((inBounds s \<union> fst ` set queue) - set visited), length queue))"
    by simp
next
  fix s :: GameState and origin :: Position and mp :: rat and current :: "Position \<times> rat"
    and rest :: "(Position \<times> rat) list" and visited reachable :: "Position list"
  assume nv: "fst current \<notin> set visited"
  let ?q = "rest @ concat (map (pushNeighbor s mp (snd current)) (neighbors (fst current)))"
  have fin: "finite ((inBounds s \<union> fst ` set (current # rest)) - set visited)"
    by (simp add: inBounds_def)
  have tile_in: "p \<in> inBounds s" if "getTileAt s p = Some t" for p t
    using that by (cases p) (simp add: getTileAt_def inBounds_def Let_def split: if_splits)
  have shape: "pushNeighbor s mp c p = [] \<or>
      (\<exists>t k. getTileAt s p = Some t \<and> pushNeighbor s mp c p = [(p, k)])" for c p
    by (simp add: pushNeighbor_def Let_def split: option.splits Cost.splits)
  have pushed: "fst ` set (pushNeighbor s mp c p) \<subseteq> inBounds s" for c p
    using shape[of c p] tile_in[of p] by auto
  have "fst ` set ?q \<subseteq> inBounds s \<union> fst ` set rest"
    using pushed by fastforce
  then have "(inBounds s \<union> fst ` set ?q) - set (fst current # visited)
           \<subset> (inBounds s \<union> fst ` set (current # rest)) - set visited"
    using nv by auto
  then have "card ((inBounds s \<union> fst ` set ?q) - set (fst current # visited))
           < card ((inBounds s \<union> fst ` set (current # rest)) - set visited)"
    using fin by (rule psubset_card_mono[rotated])
  then show "((s, origin, mp, ?q, fst current # visited,
               if fst current \<noteq> origin then reachable @ [fst current] else reachable),
              (s, origin, mp, current # rest, visited, reachable))
    \<in> inv_image (less_than <*lex*> less_than)
        (\<lambda>(s, origin, mp, queue, visited, reachable).
           (card ((inBounds s \<union> fst ` set queue) - set visited), length queue))"
    by simp
next
  fix s :: GameState and origin :: Position and mp :: rat and current :: "Position \<times> rat"
    and rest :: "(Position \<times> rat) list" and visited reachable :: "Position list"
  assume nv: "fst current \<notin> set visited"
  have fin: "finite ((inBounds s \<union> fst ` set (current # rest)) - set visited)"
    by (simp add: inBounds_def)
  have "(inBounds s \<union> fst ` set rest) - set (fst current # visited)
           \<subset> (inBounds s \<union> fst ` set (current # rest)) - set visited"
    using nv by auto
  then have "card ((inBounds s \<union> fst ` set rest) - set (fst current # visited))
           < card ((inBounds s \<union> fst ` set (current # rest)) - set visited)"
    using fin by (rule psubset_card_mono[rotated])
  then show "((s, origin, mp, rest, fst current # visited, reachable),
              (s, origin, mp, current # rest, visited, reachable))
    \<in> inv_image (less_than <*lex*> less_than)
        (\<lambda>(s, origin, mp, queue, visited, reachable).
           (card ((inBounds s \<union> fst ` set queue) - set visited), length queue))"
    by simp
qed

declare rangeLoop.simps [simp del]

definition getMovementRange :: "GameState \<Rightarrow> string \<Rightarrow> Position list" where
  "getMovementRange s heroId =
     (case getHero s heroId of
        None \<Rightarrow> []
      | Some hero \<Rightarrow> rangeLoop s (position hero) (movementPoints hero) [(position hero, 0)] [] [])"

definition canMoveTo :: "GameState \<Rightarrow> string \<Rightarrow> Position \<Rightarrow> bool" where
  "canMoveTo s heroId pos = list_ex (\<lambda>p. fst p = fst pos \<and> snd p = snd pos) (getMovementRange s heroId)"

subsection \<open>moveHero\<close>

text \<open>
  The callback that \<open>moveHero\<close> passes to \<open>set\<close>. \<open>hero\<close> and \<open>tile\<close> were read before,
  from the frozen state: \<open>poi.isDiscovered = true\<close> writes to the point of interest of that
  tile and throws, whatever the flag was, after the hero of the draft was moved.
\<close>

definition moveHeroSet ::
  "Hero \<Rightarrow> string \<Rightarrow> Position \<Rightarrow> Tile \<Rightarrow> GameState \<Rightarrow> error + GameState" where
  "moveHeroSet hero heroId target tile draft =
     (case find (\<lambda>f. faction_id f = factionId hero) (factions draft) of
        None \<Rightarrow> Inr draft
      | Some faction \<Rightarrow>
         (case find (\<lambda>h. hero_id h = heroId) (heroes faction) of
            None \<Rightarrow> Inr draft
          | Some heroToMove \<Rightarrow>
             (case movementCost tile of
                Infinity \<Rightarrow> Inr draft
              | Finite k \<Rightarrow>
                  if movementPoints heroToMove \<ge> k then
                    (let d1 = draft\<lparr>factions :=
                           update_first (\<lambda>f. faction_id f = factionId hero)
                             (\<lambda>f. f\<lparr>heroes := update_first (\<lambda>h. hero_id h = heroId)
                                      (\<lambda>h. h\<lparr>position := target,
                                              movementPoints := movementPoints h - k\<rparr>)
                                      (heroes f)\<rparr>)
                             (factions draft)\<rparr>
                     in case pointOfInterest tile of
                          None \<Rightarrow> Inr d1
                        | Some a \<Rightarrow> Inl TypeError)
                  else Inr draft)))"

text \<open>\<open>moveHero\<close>: the error of the callback leaves \<open>set\<close> and the command.\<close>

definition moveHero :: "string \<Rightarrow> Position \<Rightarrow> GameState \<Rightarrow> error + (bool \<times> GameState)" where
  "moveHero heroId target s =
     (case getHero s heroId of
        None \<Rightarrow> Inr (False, s)
      | Some hero \<Rightarrow>
          if \<not> canMoveTo s heroId target then Inr (False, s)
          else (case getTileAt s target of
                  None \<Rightarrow> Inr (False, s)
                | Some tile \<Rightarrow>
                    (case moveHeroSet hero heroId target tile s of
                       Inl e \<Rightarrow> Inl e
                     | Inr s' \<Rightarrow> Inr (True, s'))))"

definition selectHero :: "string option \<Rightarrow> GameState \<Rightarrow> GameState" where
  "selectHero heroId s = s\<lparr>selectedHeroId := heroId\<rparr>"

subsection \<open>endTurn\<close>

definition addTo :: "ResourceType \<Rightarrow> int \<Rightarrow> Resources \<Rightarrow> Resources" where
  "addTo k n r =
     (case k of rt_gold \<Rightarrow> r\<lparr>gold := gold r + n\<rparr> | rt_wood \<Rightarrow> r\<lparr>wood := wood r + n\<rparr>
      | rt_stone \<Rightarrow> r\<lparr>stone := stone r + n\<rparr> | rt_crystals \<Rightarrow> r\<lparr>crystals := crystals r + n\<rparr>)"

definition creditNode :: "FactionId \<Rightarrow> ResourceNode \<Rightarrow> Resources \<Rightarrow> Resources" where
  "creditNode fid node r =
     (if isOwned node \<and> ownedBy node = Some fid
      then addTo (resourceType node) (amountPerTurn node) r else r)"

definition collect :: "ResourceNode list \<Rightarrow> Faction \<Rightarrow> Faction" where
  "collect nodes f = f\<lparr>resources := fold (creditNode (faction_id f)) nodes (resources f)\<rparr>"

text \<open>
  \<open>endTurn\<close> returns nothing; the model returns whether the deferred call
  (\<open>setTimeout(() => get().endTurn(), 500)\<close>) was scheduled, and the new state. With no
  faction, \<open>nextFaction\<close> is \<open>undefined\<close> and reading its \<open>id\<close> throws.
\<close>

definition endTurn :: "GameState \<Rightarrow> error + (bool \<times> GameState)" where
  "endTurn s =
     (if factions s = [] then Inl TypeError
      else
       (let currentIndex = findIndex (\<lambda>f. faction_id f = currentFaction s) (factions s);
            nextIndex = nat ((currentIndex + 1) mod int (length (factions s)));
            nextId = faction_id (factions s ! nextIndex);
            nodes = map (nodeStore (worldMap s)) (resourceNodes (worldMap s));
            s1 = (if nextId = player
                  then s\<lparr>turn := turn s + 1, factions := map (collect nodes) (factions s)\<rparr>
                  else s);
            s2 = s1\<lparr>factions := (factions s1)[nextIndex :=
                    (factions s1 ! nextIndex)\<lparr>heroes :=
                       map (\<lambda>h. h\<lparr>movementPoints := maxMovementPoints h\<rparr>)
                           (heroes (factions s1 ! nextIndex))\<rparr>]\<rparr>;
            s3 = s2\<lparr>currentFaction := nextId\<rparr>;
            s4 = (case heroes (factions s3 ! nextIndex) of
                    [] \<Rightarrow> s3
                  | h # _ \<Rightarrow> s3\<lparr>selectedHeroId := Some (hero_id h)\<rparr>);
            scheduled = (case find (\<lambda>f. faction_id f = currentFaction s4) (factions s4) of
                           None \<Rightarrow> False | Some f \<Rightarrow> isAI f)
        in Inr (scheduled, s4)))"

subsection \<open>Combat\<close>

definition toCombatUnit :: "int \<Rightarrow> Unit \<Rightarrow> nat \<Rightarrow> CombatUnit" where
  "toCombatUnit col unit i =
     Unit.extend unit
       (CombatUnit.fields (col, int i) False False [])"

text \<open>
  \<open>startCombat\<close>: the combat units of the attacker get the addresses \<open>0, 1, ...\<close>, those
  of the defender follow; \<open>turnOrder\<close> holds the units themselves.
  \<open>Array.prototype.sort\<close> is stable; the comparator \<open>b.stats.speed - a.stats.speed\<close> orders
  by descending speed.
\<close>

definition startCombat :: "string \<Rightarrow> string + PointOfInterest \<Rightarrow> GameState \<Rightarrow> GameState" where
  "startCombat attackerId defenderId s =
     (case getHero s attackerId of
        None \<Rightarrow> s
      | Some attackerHero \<Rightarrow>
         (case (case defenderId of
                  Inl heroId \<Rightarrow>
                    (case getHero s heroId of
                       None \<Rightarrow> None
                     | Some d \<Rightarrow> Some (DefHero d, crew d))
                | Inr poi \<Rightarrow>
                    Some (DefPoi poi, (case garrison poi of None \<Rightarrow> [] | Some g \<Rightarrow> g))) of
            None \<Rightarrow> s
          | Some (defenderObj, defenderCrew) \<Rightarrow>
             (let attackerCombatUnits =
                    map (\<lambda>(unit, i). toCombatUnit 0 unit i)
                        (zip (crew attackerHero) [0 ..< length (crew attackerHero)]);
                  defenderCombatUnits =
                    map (\<lambda>(unit, i). toCombatUnit 7 unit i)
                        (zip defenderCrew [0 ..< length defenderCrew]);
                  allUnits = attackerCombatUnits @ defenderCombatUnits;
                  n = length attackerCombatUnits;
                  m = length defenderCombatUnits;
                  order = sort_key (\<lambda>u. - speed (stats u)) allUnits
              in s\<lparr>combatState := Some
                     \<lparr>isActive = True, attacker = attackerHero, defender = defenderObj,
                      units = (\<lambda>a. allUnits ! a),
                      attackerUnits = [0 ..< n], defenderUnits = [n ..< n + m],
                      currentTurn = attacker_side, currentUnitIndex = Some 0,
                      turnOrder = order, combatLog = [],
                      gridWidth = 8, gridHeight = 6\<rparr>,
                   gamePhase := phase_combat\<rparr>)))"

definition findUnit :: "CombatState \<Rightarrow> string \<Rightarrow> addr option" where
  "findUnit cs uid =
     find (\<lambda>a. unit_id (units cs a) = uid) (attackerUnits cs @ defenderUnits cs)"

definition updUnit :: "addr \<Rightarrow> (CombatUnit \<Rightarrow> CombatUnit) \<Rightarrow> CombatState \<Rightarrow> CombatState" where
  "updUnit a f cs = cs\<lparr>units := (units cs)(a := f (units cs a))\<rparr>"

text \<open>\<open>xs.splice(index, 1)\<close>; a negative index counts from the end.\<close>

definition splice1 :: "int \<Rightarrow> 'a list \<Rightarrow> 'a list" where
  "splice1 i xs =
     (let n = int (length xs);
          start = (if i < 0 then max (n + i) 0 else min i n)
      in take (nat start) xs @ drop (nat start + 1) xs)"

definition damageOf :: "CombatUnit \<Rightarrow> CombatUnit \<Rightarrow> rat" where
  "damageOf sourceU targetU =
     max 1 (attack (stats sourceU) * of_int (unit_count sourceU) - defense (stats targetU))"

text \<open>
  The \<open>attack\<close> case, for a source at \<open>src\<close> and a target found at \<open>tgt\<close>.
  \<open>combatState.turnOrder.indexOf(sourceUnit)\<close> looks for the draft of a roster unit among
  the drafts of the elements of \<open>turnOrder\<close>, which are other objects: it is \<open>-1\<close>.
\<close>

definition attackAction :: "int \<Rightarrow> addr \<Rightarrow> addr \<Rightarrow> CombatState \<Rightarrow> CombatState" where
  "attackAction now src tgt cs =
     (let damage = damageOf (units cs src) (units cs tgt);
          cs1 = updUnit tgt (\<lambda>u. u\<lparr>stats := (stats u)\<lparr>hp := hp (stats u) - damage\<rparr>\<rparr>) cs;
          hpPerUnit = maxHp (stats (UNIT_TEMPLATES (unit_type (units cs1 tgt))));
          unitsKilled = \<lfloor>damage / hpPerUnit\<rfloor>;
          cs2 = updUnit tgt (\<lambda>u. u\<lparr>unit_count := max 0 (unit_count u - unitsKilled)\<rparr>) cs1;
          cs3 = cs2\<lparr>combatLog := combatLog cs2 @
                  [\<lparr>log_turn = - 1,
                    message = (unit_name (units cs2 src), damage, unit_name (units cs2 tgt)),
                    timestamp = now\<rparr>]\<rparr>
      in if unit_count (units cs3 tgt) \<le> 0 \<or> hp (stats (units cs3 tgt)) \<le> 0
         then (if tgt \<in> set (attackerUnits cs3)
               then cs3\<lparr>attackerUnits :=
                      splice1 (indexOf (attackerUnits cs3) tgt) (attackerUnits cs3)\<rparr>
               else cs3\<lparr>defenderUnits :=
                      splice1 (indexOf (defenderUnits cs3) tgt) (defenderUnits cs3)\<rparr>)
         else cs3)"

text \<open>The \<open>switch (action.type)\<close>. A string is truthy when it is not empty.\<close>

definition applyAction :: "int \<Rightarrow> CombatAction \<Rightarrow> addr \<Rightarrow> CombatState \<Rightarrow> CombatState" where
  "applyAction now action src cs =
     (case action_type action of
        act_move \<Rightarrow>
          (case targetPosition action of
             None \<Rightarrow> cs
           | Some p \<Rightarrow> updUnit src (\<lambda>u. u\<lparr>combatPosition := p\<rparr>) cs)
      | act_attack \<Rightarrow>
          (case targetUnit action of
             None \<Rightarrow> cs
           | Some tid \<Rightarrow>
               if tid = [] then cs
               else (case findUnit cs tid of
                       None \<Rightarrow> cs
                     | Some tgt \<Rightarrow> attackAction now src tgt cs))
      | act_defend \<Rightarrow>
          updUnit src (\<lambda>u. u\<lparr>stats := (stats u)\<lparr>defense := defense (stats u) * (3 / 2)\<rparr>\<rparr>)
            (updUnit src (\<lambda>u. u\<lparr>isDefending := True\<rparr>) cs)
      | act_wait \<Rightarrow> cs
      | act_ability \<Rightarrow> cs)"

definition jsRem :: "int \<Rightarrow> int \<Rightarrow> int option" where
  "jsRem a n = (if n = 0 then None
                else Some (if a \<ge> 0 then a mod \<bar>n\<bar> else - ((- a) mod \<bar>n\<bar>)))"

text \<open>
  \<open>turnOrder.every((u) => u.hasActed)\<close> and the \<open>forEach\<close> that clears the flags read and
  write the elements of \<open>turnOrder\<close>, not the units of the rosters.
\<close>

definition allActed :: "CombatState \<Rightarrow> bool" where
  "allActed cs = list_all hasActed (turnOrder cs)"

definition resetRound :: "CombatState \<Rightarrow> CombatState" where
  "resetRound cs =
     cs\<lparr>turnOrder := map (\<lambda>u. u\<lparr>hasActed := False, isDefending := False\<rparr>) (turnOrder cs)\<rparr>"

text \<open>
  What follows the \<open>switch\<close>: the source, a unit of a roster, is marked, the index advances,
  the flags in \<open>turnOrder\<close> are cleared when all of them are set.
\<close>

definition finishAction :: "addr \<Rightarrow> CombatState \<Rightarrow> CombatState" where
  "finishAction src cs =
     (let cs1 = updUnit src (\<lambda>u. u\<lparr>hasActed := True\<rparr>) cs
      in if attackerUnits cs1 = [] \<or> defenderUnits cs1 = [] then cs1
         else (let cs2 = cs1\<lparr>currentUnitIndex :=
                       (case currentUnitIndex cs1 of
                          None \<Rightarrow> None
                        | Some i \<Rightarrow> jsRem (i + 1) (int (length (turnOrder cs1))))\<rparr>
               in if allActed cs2 then resetRound cs2 else cs2))"

text \<open>\<open>now\<close> is the value of \<open>Date.now()\<close> that the log entry records.\<close>

definition executeCombatAction :: "int \<Rightarrow> CombatAction \<Rightarrow> GameState \<Rightarrow> GameState" where
  "executeCombatAction now action draft =
     (case combatState draft of
        None \<Rightarrow> draft
      | Some cs \<Rightarrow>
         (case findUnit cs (sourceUnit action) of
            None \<Rightarrow> draft
          | Some src \<Rightarrow>
              if hasActed (units cs src) then draft
              else draft\<lparr>combatState := Some (finishAction src (applyAction now action src cs))\<rparr>))"

text \<open>
  \<open>runAutoBattle\<close> draws from \<open>Math.random()\<close>, once before each action it issues: the
  draws are the parameter \<open>rnd\<close>, the clock readings the parameter \<open>clock\<close>, both counted
  by the number \<open>k\<close> of actions issued so far. \<open>combat\<close> is the combat state read by
  \<open>get()\<close> before the loop; \<open>strikeLoop\<close> is one of the two \<open>for\<close> loops, over the copy
  \<open>own\<close> of a roster, choosing among \<open>enemies\<close>.
\<close>

fun strikeLoop ::
  "(nat \<Rightarrow> draw) \<Rightarrow> (nat \<Rightarrow> int) \<Rightarrow> CombatState \<Rightarrow> addr list \<Rightarrow> addr list \<Rightarrow> nat \<Rightarrow> GameState
    \<Rightarrow> nat \<times> GameState" where
  "strikeLoop rnd clock combat enemies [] k s = (k, s)"
| "strikeLoop rnd clock combat enemies (unit # rest) k s =
     (if enemies = [] then (k, s)
      else
       (let target = enemies ! nat \<lfloor>draw_value (rnd k) * of_nat (length enemies)\<rfloor>;
            s' = executeCombatAction (clock k)
                   \<lparr>action_type = act_attack, sourceUnit = unit_id (units combat unit),
                    targetPosition = None, targetUnit = Some (unit_id (units combat target))\<rparr> s
        in strikeLoop rnd clock combat enemies rest (Suc k) s'))"

fun autoLoop :: "nat \<Rightarrow> (nat \<Rightarrow> draw) \<Rightarrow> (nat \<Rightarrow> int) \<Rightarrow> nat \<Rightarrow> GameState \<Rightarrow> GameState" where
  "autoLoop 0 rnd clock k s = s"
| "autoLoop (Suc maxRounds) rnd clock k s =
     (case combatState s of
        None \<Rightarrow> s
      | Some combat \<Rightarrow>
          if attackerUnits combat = [] \<or> defenderUnits combat = [] then s
          else
           (let (k1, s1) = strikeLoop rnd clock combat (defenderUnits combat)
                             (attackerUnits combat) k s
            in case combatState s1 of
                 None \<Rightarrow> s1
               | Some combatAfterAttack \<Rightarrow>
                   if defenderUnits combatAfterAttack = [] then s1
                   else
                    (let (k2, s2) = strikeLoop rnd clock combatAfterAttack
                                      (attackerUnits combatAfterAttack)
                                      (defenderUnits combatAfterAttack) k1 s1
                     in autoLoop maxRounds rnd clock k2 s2)))"

definition autoResult :: "CombatState \<Rightarrow> CombatResult" where
  "autoResult finalCombat =
     (let w = (if length (attackerUnits finalCombat) > 0 then attacker_wins else defender_wins)
      in \<lparr>result_winner = w, attackerLosses = [], defenderLosses = [],
          experienceGained = (if w = attacker_wins then 50 else 0),
          resourcesLooted =
            (if w = attacker_wins then \<lparr>gold = 100, wood = 20, stone = 10, crystals = 5\<rparr>
             else \<lparr>gold = 0, wood = 0, stone = 0, crystals = 0\<rparr>)\<rparr>)"

definition runAutoBattle ::
  "(nat \<Rightarrow> draw) \<Rightarrow> (nat \<Rightarrow> int) \<Rightarrow> GameState \<Rightarrow> CombatResult option \<times> GameState" where
  "runAutoBattle rnd clock s =
     (case combatState s of
        None \<Rightarrow> (None, s)
      | Some _ \<Rightarrow>
         (let s' = autoLoop 20 rnd clock 0 s
          in case combatState s' of
               None \<Rightarrow> (None, s')
             | Some finalCombat \<Rightarrow> (Some (autoResult finalCombat), s')))"

text \<open>
  \<open>draft.factions.flatMap((f) => f.heroes).find(...)\<close> followed by writes to the hero
  found: the first hero with that id, in roster order, is replaced.
\<close>

fun updateHero :: "string \<Rightarrow> (Hero \<Rightarrow> Hero) \<Rightarrow> Faction list \<Rightarrow> Faction list" where
  "updateHero heroId g [] = []"
| "updateHero heroId g (f # fs) =
     (if find (\<lambda>h. hero_id h = heroId) (heroes f) \<noteq> None
      then f\<lparr>heroes := update_first (\<lambda>h. hero_id h = heroId) g (heroes f)\<rparr> # fs
      else f # updateHero heroId g fs)"

definition levelUp :: "int \<Rightarrow> Hero \<Rightarrow> Hero" where
  "levelUp gained h =
     (let h1 = h\<lparr>experience := experience h + gained\<rparr>
      in if experience h1 \<ge> experienceToNext h1
         then h1\<lparr>level := level h1 + 1,
                 experience := experience h1 - experienceToNext h1,
                 experienceToNext := \<lfloor>of_int (experienceToNext h1) * (3 / 2 :: rat)\<rfloor>,
                 bonuses := (bonuses h1)\<lparr>attackBonus := attackBonus (bonuses h1) + 1,
                                          defenseBonus := defenseBonus (bonuses h1) + 1\<rparr>\<rparr>
         else h1)"

definition addLoot :: "Resources \<Rightarrow> Resources \<Rightarrow> Resources" where
  "addLoot loot r =
     \<lparr>gold = gold r + gold loot, wood = wood r + wood loot,
      stone = stone r + stone loot, crystals = crystals r + crystals loot\<rparr>"

definition endCombat :: "CombatResult \<Rightarrow> GameState \<Rightarrow> GameState" where
  "endCombat result draft =
     (case combatState draft of
        None \<Rightarrow> draft
      | Some cs \<Rightarrow>
         (let hid = hero_id (attacker cs);
              d1 = (case find (\<lambda>h. hero_id h = hid) (concat (map heroes (factions draft))) of
                      None \<Rightarrow> draft
                    | Some attackerHero \<Rightarrow>
                        if result_winner result = attacker_wins then
                          (let fs1 = updateHero hid (levelUp (experienceGained result)) (factions draft);
                               fs2 = update_first (\<lambda>f. faction_id f = factionId attackerHero)
                                       (\<lambda>f. f\<lparr>resources := addLoot (resourcesLooted result) (resources f)\<rparr>)
                                       fs1;
                               fs3 = updateHero hid
                                       (\<lambda>h. h\<lparr>crew := map (\<lambda>a. Unit.truncate (units cs a))
                                                          (attackerUnits cs)\<rparr>) fs2
                           in draft\<lparr>factions := fs3\<rparr>)
                        else draft)
          in d1\<lparr>combatState := None, gamePhase := phase_world_map\<rparr>))"

subsection \<open>Towns\<close>

definition findPoi :: "WorldMap \<Rightarrow> (PointOfInterest \<Rightarrow> bool) \<Rightarrow> addr option" where
  "findPoi wm P = find (\<lambda>a. P (poiStore wm a)) (pointsOfInterest wm)"

definition enterTown :: "string \<Rightarrow> GameState \<Rightarrow> GameState" where
  "enterTown townId s =
     (case findPoi (worldMap s) (\<lambda>poi. poi_id poi = townId \<and> poi_type poi = poi_town) of
        None \<Rightarrow> s
      | Some _ \<Rightarrow> s\<lparr>gamePhase := phase_town\<rparr>)"

definition leaveTown :: "GameState \<Rightarrow> GameState" where
  "leaveTown s = s\<lparr>gamePhase := phase_world_map\<rparr>"

definition scaleCost :: "Resources \<Rightarrow> int \<Rightarrow> PartialResources" where
  "scaleCost c n =
     \<lparr>p_gold = Some (gold c * n), p_wood = Some (wood c * n),
      p_stone = Some (stone c * n), p_crystals = Some (crystals c * n)\<rparr>"

text \<open>The callback that \<open>recruitUnit\<close> passes to \<open>set\<close>, after the payment.\<close>

definition recruitSet :: "Hero \<Rightarrow> string \<Rightarrow> UnitType \<Rightarrow> int \<Rightarrow> int \<Rightarrow> GameState \<Rightarrow> GameState" where
  "recruitSet hero townId ty n now draft =
     (case find (\<lambda>h. hero_id h = hero_id hero) (concat (map heroes (factions draft))) of
        None \<Rightarrow> draft
      | Some draftHero \<Rightarrow>
         (let d1 = draft\<lparr>factions := updateHero (hero_id hero)
                     (\<lambda>h. case find (\<lambda>u. unit_type u = ty) (crew h) of
                             Some existingUnit \<Rightarrow>
                               h\<lparr>crew := update_first (\<lambda>u. unit_type u = ty)
                                            (\<lambda>u. u\<lparr>unit_count := unit_count u + n\<rparr>) (crew h)\<rparr>
                           | None \<Rightarrow>
                               h\<lparr>crew := crew h @
                                    [(UNIT_TEMPLATES ty)\<lparr>unit_id := ''unit_'' @ intToString now,
                                                          unit_count := n\<rparr>]\<rparr>)
                     (factions draft)\<rparr>;
              wm = worldMap d1
          in case findPoi wm (\<lambda>poi. poi_id poi = townId) of
               None \<Rightarrow> d1
             | Some a \<Rightarrow>
                 d1\<lparr>worldMap := wm\<lparr>poiStore := (poiStore wm)
                      (a := (poiStore wm a)\<lparr>recruitPool :=
                              map_option (update_first (\<lambda>r. unitType r = ty)
                                            (\<lambda>r. r\<lparr>available := available r - n\<rparr>))
                                         (recruitPool (poiStore wm a))\<rparr>)\<rparr>\<rparr>))"

text \<open>
  \<open>recruitUnit\<close>. The \<open>unitType\<close> argument is one of the five unit types. A town without a
  \<open>recruitPool\<close> key makes \<open>town.recruitPool.find\<close> throw.
\<close>

definition recruitUnit ::
  "string \<Rightarrow> UnitType \<Rightarrow> int \<Rightarrow> int \<Rightarrow> GameState \<Rightarrow> error + (bool \<times> GameState)" where
  "recruitUnit townId ty n now s =
     (case (case selectedHeroId s of
              None \<Rightarrow> None
            | Some hid \<Rightarrow> if hid = [] then None else getHero s hid) of
        None \<Rightarrow> Inr (False, s)
      | Some hero \<Rightarrow>
         (case getFaction s (factionId hero) of
            None \<Rightarrow> Inr (False, s)
          | Some faction \<Rightarrow>
             (case findPoi (worldMap s) (\<lambda>poi. poi_id poi = townId) of
                None \<Rightarrow> Inr (False, s)
              | Some a \<Rightarrow>
                 (let townPoi = poiStore (worldMap s) a
                  in if poi_type townPoi \<noteq> poi_town then Inr (False, s)
                     else (case recruitPool townPoi of
                             None \<Rightarrow> Inl TypeError
                           | Some pool \<Rightarrow>
                              (case find (\<lambda>r. unitType r = ty) pool of
                                 None \<Rightarrow> Inr (False, s)
                               | Some recruitOption \<Rightarrow>
                                   if available recruitOption < n then Inr (False, s)
                                   else (case spendResources (faction_id faction)
                                                 (scaleCost (cost recruitOption) n) s of
                                           (False, s') \<Rightarrow> Inr (False, s')
                                         | (True, s') \<Rightarrow>
                                             Inr (True, recruitSet hero townId ty n now s'))))))))"

section \<open>The world generator (world/worldGenerator.ts)\<close>

record WorldGenConfig =
  cfg_width :: int
  cfg_height :: int
  cfg_seed :: string
  numTowns :: int
  numEnemyCamps :: int
  numResourceNodes :: int
  numNeutralEncounters :: int

text \<open>
  In this section a function that reads a tile returns an \<open>option\<close>: \<open>None\<close> stands for a
  call that does not return (reading a property of \<open>undefined\<close> throws; the road loop may
  not end).

  The noise field is floating-point arithmetic on the permutation table. The table is
  built here as the constructor builds it; the function \<open>octaveNoise\<close> of the table is a
  parameter \<open>noise\<close> of the generator (table, x, y, octaves, persistence).
\<close>

type_synonym Noise = "nat list \<Rightarrow> rat \<Rightarrow> rat \<Rightarrow> nat \<Rightarrow> rat \<Rightarrow> rat"

definition newSimplexNoise :: "SeededRandom \<Rightarrow> nat list \<times> SeededRandom" where
  "newSimplexNoise rng =
     (let (permutation, rng') = shuffle [0 ..< 256] rng in (permutation @ permutation, rng'))"

definition determineTerrain :: "rat \<Rightarrow> rat \<Rightarrow> TerrainType" where
  "determineTerrain elev moisture =
     (if elev < 3 / 10 then water
      else if elev > 3 / 4 then mountain
      else if moisture < 3 / 10 \<and> elev > 7 / 20 then desert
      else if moisture > 3 / 5 \<and> elev < 13 / 20 then forest
      else grass)"

definition makeTile :: "(rat \<Rightarrow> rat \<Rightarrow> nat \<Rightarrow> rat \<Rightarrow> rat) \<Rightarrow> rat \<Rightarrow> nat \<Rightarrow> nat \<Rightarrow> Tile" where
  "makeTile octaveNoise moistureOffset y x =
     (let scale = 1 / 20;
          elev = octaveNoise (of_nat x * scale) (of_nat y * scale) 4 (1 / 2);
          moisture = octaveNoise ((of_nat x + moistureOffset) * scale)
                       ((of_nat y + moistureOffset) * scale) 3 (3 / 5);
          normalizedElevation = (elev + 1) / 2;
          normalizedMoisture = (moisture + 1) / 2;
          tr = determineTerrain normalizedElevation normalizedMoisture
      in \<lparr>tile_position = (int x, int y), terrain = tr, elevation = normalizedElevation,
          movementCost = TERRAIN_COSTS tr, isPassable = TERRAIN_PASSABLE tr,
          pointOfInterest = None, resourceNode = None\<rparr>)"

definition generateTerrain ::
  "int \<Rightarrow> int \<Rightarrow> (rat \<Rightarrow> rat \<Rightarrow> nat \<Rightarrow> rat \<Rightarrow> rat) \<Rightarrow> SeededRandom \<Rightarrow> Tile list list \<times> SeededRandom" where
  "generateTerrain w h octaveNoise rng =
     (let (moistureOffset, rng') = randomFloat 100 1000 rng
      in (map (\<lambda>y. map (makeTile octaveNoise moistureOffset y) [0 ..< nat w]) [0 ..< nat h], rng'))"

definition tileAt :: "Tile list list \<Rightarrow> Position \<Rightarrow> Tile option" where
  "tileAt ts pos =
     (if 0 \<le> snd pos \<and> nat (snd pos) < length ts
      then (let row = ts ! nat (snd pos)
            in if 0 \<le> fst pos \<and> nat (fst pos) < length row then Some (row ! nat (fst pos))
               else None)
      else None)"

definition setTile :: "Position \<Rightarrow> (Tile \<Rightarrow> Tile) \<Rightarrow> Tile list list \<Rightarrow> Tile list list option" where
  "setTile pos f ts =
     (case tileAt ts pos of
        None \<Rightarrow> None
      | Some t \<Rightarrow> Some (ts[nat (snd pos) := (ts ! nat (snd pos))[nat (fst pos) := f t]]))"

definition manhattanDistance :: "Position \<Rightarrow> Position \<Rightarrow> int" where
  "manhattanDistance a b = \<bar>fst a - fst b\<bar> + \<bar>snd a - snd b\<bar>"

text \<open>
  \<open>findValidPositions\<close>: the cells \<open>(x, y)\<close> in loop order, \<open>y\<close> from \<open>1\<close> to
  \<open>tiles.length - 2\<close>, \<open>x\<close> from \<open>1\<close> to \<open>tiles[0].length - 2\<close>.
\<close>

definition innerCells :: "Tile list list \<Rightarrow> Position list" where
  "innerCells ts =
     concat (map (\<lambda>y. map (\<lambda>x. (int x, int y)) [1 ..< length (ts ! 0) - 1])
                 [1 ..< length ts - 1])"

definition findValidPositions :: "Tile list list \<Rightarrow> TerrainType list \<Rightarrow> Position list option" where
  "findValidPositions ts validTerrains =
     map_option concat
       (those (map (\<lambda>pos. case tileAt ts pos of
                            None \<Rightarrow> None
                          | Some t \<Rightarrow> Some (if terrain t \<in> set validTerrains \<and> isPassable t
                                             then [pos] else []))
                   (innerCells ts)))"

subsection \<open>Garrisons and towns\<close>

fun garrisonLoop :: "nat \<Rightarrow> int \<Rightarrow> Unit list \<Rightarrow> SeededRandom \<Rightarrow> Unit list \<times> SeededRandom" where
  "garrisonLoop 0 d acc rng = (acc, rng)"
| "garrisonLoop (Suc n) d acc rng =
     (let (ty, rng1) = randomElement [warrior, archer, cavalry] rng;
          (uid, rng2) = randomId rng1;
          (c, rng3) = randomInt 2 8 rng2
      in garrisonLoop n d
           (acc @ [(UNIT_TEMPLATES ty)\<lparr>unit_id := ''unit_'' @ uid, unit_count := d * 3 + c\<rparr>])
           rng3)"

definition generateGarrison :: "SeededRandom \<Rightarrow> int \<Rightarrow> Unit list \<times> SeededRandom" where
  "generateGarrison rng d =
     (let (c, rng1) = randomInt 1 3 rng in garrisonLoop (nat (d * 2 + c)) d [] rng1)"

definition recruitEntry :: "UnitType \<Rightarrow> int \<Rightarrow> int \<Rightarrow> int \<Rightarrow> int \<Rightarrow> int \<Rightarrow> UnitRecruitOption" where
  "recruitEntry ty g w c avail cap =
     \<lparr>unitType = ty, cost = \<lparr>gold = g, wood = w, stone = 0, crystals = c\<rparr>,
      available = avail, maxPerWeek = cap\<rparr>"

definition generateRecruitPool :: "SeededRandom \<Rightarrow> UnitRecruitOption list \<times> SeededRandom" where
  "generateRecruitPool rng =
     (let (a1, rng1) = randomInt 5 15 rng;
          (a2, rng2) = randomInt 3 10 rng1;
          (a3, rng3) = randomInt 2 6 rng2;
          (a4, rng4) = randomInt 1 4 rng3;
          (a5, rng5) = randomInt 2 5 rng4
      in ([recruitEntry warrior 100 0 0 a1 10, recruitEntry archer 80 20 0 a2 8,
           recruitEntry cavalry 200 0 0 a3 4, recruitEntry mage 250 0 20 a4 2,
           recruitEntry healer 150 0 10 a5 3], rng5))"

definition townNames :: "string list" where
  "townNames = [''Ironhold'', ''Silverdale'', ''Goldcrest'', ''Stonehaven'', ''Oakshire'',
     ''Riverwatch'', ''Hillcrest'', ''Meadowbrook'', ''Thornfield'', ''Crystalvale'',
     ''Frostgate'', ''Sunhaven'', ''Shadowmere'', ''Brightwater'', ''Stormwind'']"

definition createTown :: "Position \<Rightarrow> SeededRandom \<Rightarrow> bool \<Rightarrow> PointOfInterest \<times> SeededRandom" where
  "createTown pos rng isPlayerStart =
     (let (tid, rng1) = randomId rng;
          (nm, rng2) = randomElement townNames rng1;
          (gar, rng3) = (if isPlayerStart then ([], rng2) else generateGarrison rng2 1);
          (pool, rng4) = generateRecruitPool rng3;
          (g, rng5) = randomInt 100 500 rng4;
          (w, rng6) = randomInt 50 200 rng5;
          (st, rng7) = randomInt 30 150 rng6;
          (c, rng8) = randomInt 10 50 rng7
      in (\<lparr>poi_id = ''town_'' @ tid, poi_type = poi_town, poi_name = nm, poi_position = pos,
           poi_factionId = (if isPlayerStart then player else neutral),
           garrison = Some gar, isDiscovered = isPlayerStart,
           recruitPool = Some pool, buildings = Some [],
           poi_resources = Some \<lparr>gold = g, wood = w, stone = st, crystals = c\<rparr>,
           difficulty = None, rewards = None\<rparr>, rng8))"

fun townsLoop ::
  "int \<Rightarrow> Position list \<Rightarrow> PointOfInterest list \<Rightarrow> SeededRandom
    \<Rightarrow> PointOfInterest list \<times> SeededRandom" where
  "townsLoop n [] towns rng = (towns, rng)"
| "townsLoop n (pos # rest) towns rng =
     (if int (length towns) \<ge> n then (towns, rng)
      else if list_ex (\<lambda>t. manhattanDistance pos (poi_position t) < 8) towns
           then townsLoop n rest towns rng
           else (let (t, rng') = createTown pos rng (length towns = 0)
                 in townsLoop n rest (towns @ [t]) rng'))"

definition generateTowns ::
  "Tile list list \<Rightarrow> int \<Rightarrow> SeededRandom \<Rightarrow> (PointOfInterest list \<times> SeededRandom) option" where
  "generateTowns ts n rng =
     do {
       validPositions \<leftarrow> findValidPositions ts [grass, desert];
       let (shuffledPositions, rng') = shuffle validPositions rng;
       Some (townsLoop n shuffledPositions [] rng')
     }"

subsection \<open>Enemy camps, resource nodes, neutral encounters\<close>

definition createCamp :: "Position \<Rightarrow> SeededRandom \<Rightarrow> PointOfInterest \<times> SeededRandom" where
  "createCamp pos rng =
     (let (d, rng1) = randomInt 1 5 rng;
          (cid, rng2) = randomId rng1;
          (nm, rng3) = randomElement [''Goblin'', ''Bandit'', ''Orc'', ''Skeleton'', ''Troll''] rng2;
          (fid, rng4) = randomElement [enemy_1, enemy_2] rng3;
          (gar, rng5) = generateGarrison rng4 d;
          (g, rng6) = randomInt 50 200 rng5;
          (w, rng7) = randomInt 10 50 rng6;
          (st, rng8) = randomInt 5 30 rng7;
          (c, rng9) = randomInt 0 20 rng8
      in (\<lparr>poi_id = ''camp_'' @ cid, poi_type = poi_enemy_camp, poi_name = nm @ '' Camp'',
           poi_position = pos, poi_factionId = fid, garrison = Some gar, isDiscovered = False,
           recruitPool = None, buildings = None, poi_resources = None,
           difficulty = Some d,
           rewards = Some \<lparr>gold = d * 100 + g, wood = d * 20 + w,
                           stone = d * 15 + st, crystals = d * 5 + c\<rparr>\<rparr>, rng9))"

fun campsLoop ::
  "int \<Rightarrow> PointOfInterest list \<Rightarrow> Position list \<Rightarrow> PointOfInterest list \<Rightarrow> SeededRandom
    \<Rightarrow> PointOfInterest list \<times> SeededRandom" where
  "campsLoop n towns [] camps rng = (camps, rng)"
| "campsLoop n towns (pos # rest) camps rng =
     (if int (length camps) \<ge> n then (camps, rng)
      else
       (let tooCloseToTown = list_ex (\<lambda>t. manhattanDistance pos (poi_position t) < 5) towns;
            tooCloseToCamp = list_ex (\<lambda>c. manhattanDistance pos (poi_position c) < 4) camps
        in if \<not> tooCloseToTown \<and> \<not> tooCloseToCamp
           then (let (c, rng') = createCamp pos rng in campsLoop n towns rest (camps @ [c]) rng')
           else campsLoop n towns rest camps rng))"

definition generateEnemyCamps ::
  "Tile list list \<Rightarrow> int \<Rightarrow> SeededRandom \<Rightarrow> PointOfInterest list
    \<Rightarrow> (PointOfInterest list \<times> SeededRandom) option" where
  "generateEnemyCamps ts n rng towns =
     do {
       validPositions \<leftarrow> findValidPositions ts [grass, forest, desert];
       let (shuffledPositions, rng') = shuffle validPositions rng;
       Some (campsLoop n towns shuffledPositions [] rng')
     }"

definition resourceTypes :: "ResourceType list" where
  "resourceTypes = [rt_gold, rt_wood, rt_stone, rt_crystals]"

definition pickResourceType :: "TerrainType \<Rightarrow> SeededRandom \<Rightarrow> ResourceType \<times> SeededRandom" where
  "pickResourceType tr rng =
     (if tr = forest
      then (let (b, rng1) = chance (7 / 10) rng
            in if b then (rt_wood, rng1) else randomElement resourceTypes rng1)
      else if tr = mountain
      then (let (b, rng1) = chance (7 / 10) rng
            in if b then (rt_stone, rng1) else randomElement resourceTypes rng1)
      else randomElement resourceTypes rng)"

definition createNode :: "Tile \<Rightarrow> Position \<Rightarrow> SeededRandom \<Rightarrow> ResourceNode \<times> SeededRandom" where
  "createNode tile pos rng =
     (let (rt, rng1) = pickResourceType (terrain tile) rng;
          (nid, rng2) = randomId rng1;
          (amount, rng3) = randomInt 5 20 rng2
      in (\<lparr>node_id = ''resource_'' @ nid, resourceType = rt, node_position = pos,
           amountPerTurn = amount, isOwned = False, ownedBy = None\<rparr>, rng3))"

fun nodesLoop ::
  "Tile list list \<Rightarrow> int \<Rightarrow> PointOfInterest list \<Rightarrow> PointOfInterest list \<Rightarrow> Position list
    \<Rightarrow> ResourceNode list \<Rightarrow> SeededRandom \<Rightarrow> (ResourceNode list \<times> SeededRandom) option" where
  "nodesLoop ts n towns camps [] nodes rng = Some (nodes, rng)"
| "nodesLoop ts n towns camps (pos # rest) nodes rng =
     (if int (length nodes) \<ge> n then Some (nodes, rng)
      else
       (let tooClose =
              (list_ex (\<lambda>t. manhattanDistance pos (poi_position t) < 3) towns \<or>
               list_ex (\<lambda>c. manhattanDistance pos (poi_position c) < 3) camps \<or>
               list_ex (\<lambda>n. manhattanDistance pos (node_position n) < 3) nodes)
        in if \<not> tooClose
           then (case tileAt ts pos of
                   None \<Rightarrow> None
                 | Some tile \<Rightarrow>
                     (let (node, rng') = createNode tile pos rng
                      in nodesLoop ts n towns camps rest (nodes @ [node]) rng'))
           else nodesLoop ts n towns camps rest nodes rng))"

definition generateResourceNodes ::
  "Tile list list \<Rightarrow> int \<Rightarrow> SeededRandom \<Rightarrow> PointOfInterest list \<Rightarrow> PointOfInterest list
    \<Rightarrow> (ResourceNode list \<times> SeededRandom) option" where
  "generateResourceNodes ts n rng towns camps =
     do {
       validPositions \<leftarrow> findValidPositions ts [grass, forest, desert, mountain];
       let (shuffledPositions, rng') = shuffle validPositions rng;
       nodesLoop ts n towns camps shuffledPositions [] rng'
     }"

definition encounterTypes :: "string list" where
  "encounterTypes = [''Ancient Shrine'', ''Wandering Merchant'', ''Lost Treasure'',
     ''Hermit's Hut'', ''Mystic Well'', ''Abandoned Wagon'']"

definition createEncounter :: "Position \<Rightarrow> SeededRandom \<Rightarrow> PointOfInterest \<times> SeededRandom" where
  "createEncounter pos rng =
     (let (eid, rng1) = randomId rng;
          (nm, rng2) = randomElement encounterTypes rng1
      in (\<lparr>poi_id = ''encounter_'' @ eid, poi_type = poi_neutral_encounter, poi_name = nm,
           poi_position = pos, poi_factionId = neutral, garrison = None, isDiscovered = False,
           recruitPool = None, buildings = None, poi_resources = None,
           difficulty = None, rewards = None\<rparr>, rng2))"

fun encountersLoop ::
  "int \<Rightarrow> PointOfInterest list \<Rightarrow> PointOfInterest list \<Rightarrow> ResourceNode list \<Rightarrow> Position list
    \<Rightarrow> PointOfInterest list \<Rightarrow> SeededRandom \<Rightarrow> PointOfInterest list \<times> SeededRandom" where
  "encountersLoop n towns camps nodes [] encounters rng = (encounters, rng)"
| "encountersLoop n towns camps nodes (pos # rest) encounters rng =
     (if int (length encounters) \<ge> n then (encounters, rng)
      else
       (let tooClose =
              (list_ex (\<lambda>t. manhattanDistance pos (poi_position t) < 3) towns \<or>
               list_ex (\<lambda>c. manhattanDistance pos (poi_position c) < 3) camps \<or>
               list_ex (\<lambda>r. manhattanDistance pos (node_position r) < 3) nodes \<or>
               list_ex (\<lambda>e. manhattanDistance pos (poi_position e) < 3) encounters)
        in if \<not> tooClose
           then (let (e, rng') = createEncounter pos rng
                 in encountersLoop n towns camps nodes rest (encounters @ [e]) rng')
           else encountersLoop n towns camps nodes rest encounters rng))"

definition generateNeutralEncounters ::
  "Tile list list \<Rightarrow> int \<Rightarrow> SeededRandom \<Rightarrow> PointOfInterest list \<Rightarrow> PointOfInterest list
    \<Rightarrow> ResourceNode list \<Rightarrow> (PointOfInterest list \<times> SeededRandom) option" where
  "generateNeutralEncounters ts n rng towns camps nodes =
     do {
       validPositions \<leftarrow> findValidPositions ts [grass, forest];
       let (shuffledPositions, rng') = shuffle validPositions rng;
       Some (encountersLoop n towns camps nodes shuffledPositions [] rng')
     }"

subsection \<open>Roads\<close>

definition carve :: "Tile \<Rightarrow> Tile" where
  "carve tile =
     (if isPassable tile \<and> terrain tile \<noteq> water
      then tile\<lparr>terrain := road, movementCost := TERRAIN_COSTS road\<rparr> else tile)"

text \<open>One step of the walk from \<open>current\<close> towards \<open>dest\<close>; \<open>primary\<close> is \<open>rng.chance(0.6)\<close>.\<close>

definition roadStep :: "bool \<Rightarrow> Position \<Rightarrow> Position \<Rightarrow> Position" where
  "roadStep primary current dest =
     (let dx = fst dest - fst current;
          dy = snd dest - snd current
      in if primary
         then (if \<bar>dx\<bar> > \<bar>dy\<bar> then (fst current + sgn dx, snd current)
               else (fst current, snd current + sgn dy))
         else (if \<bar>dx\<bar> \<le> \<bar>dy\<bar> \<and> dx \<noteq> 0 then (fst current + sgn dx, snd current)
               else if dy \<noteq> 0 then (fst current, snd current + sgn dy)
               else (fst current + sgn dx, snd current)))"

definition clampToMap :: "Tile list list \<Rightarrow> Position \<Rightarrow> Position" where
  "clampToMap ts pos =
     (max 0 (min (int (length (ts ! 0)) - 1) (fst pos)),
      max 0 (min (int (length ts) - 1) (snd pos)))"

partial_function (option) walkRoad ::
  "Tile list list \<Rightarrow> Position \<Rightarrow> Position \<Rightarrow> SeededRandom \<Rightarrow> (Tile list list \<times> SeededRandom) option"
  where
  "walkRoad ts current dest rng =
     (if fst current \<noteq> fst dest \<or> snd current \<noteq> snd dest
      then (case setTile current carve ts of
              None \<Rightarrow> None
            | Some ts' \<Rightarrow>
                walkRoad ts'
                  (clampToMap ts' (roadStep (fst (chance (3 / 5) rng)) current dest))
                  dest (snd (chance (3 / 5) rng)))
      else Some (ts, rng))"

fun roadsLoop ::
  "Tile list list \<Rightarrow> PointOfInterest list \<Rightarrow> SeededRandom \<Rightarrow> (Tile list list \<times> SeededRandom) option"
  where
  "roadsLoop ts (a # b # rest) rng =
     (case walkRoad ts (poi_position a) (poi_position b) rng of
        None \<Rightarrow> None
      | Some (ts', rng') \<Rightarrow> roadsLoop ts' (b # rest) rng')"
| "roadsLoop ts towns rng = Some (ts, rng)"

definition generateRoads ::
  "Tile list list \<Rightarrow> PointOfInterest list \<Rightarrow> SeededRandom \<Rightarrow> (Tile list list \<times> SeededRandom) option"
  where
  "generateRoads ts towns rng = roadsLoop ts towns rng"

subsection \<open>generateWorld\<close>

text \<open>
  \<open>tile.pointOfInterest = poi\<close> for the points of interest in order; the address of a point
  of interest is its index in \<open>allPOIs\<close>, the address of a node its index in \<open>resourceNodes\<close>.
\<close>

fun attachPois :: "(addr \<times> PointOfInterest) list \<Rightarrow> Tile list list \<Rightarrow> Tile list list option" where
  "attachPois [] ts = Some ts"
| "attachPois ((a, poi) # rest) ts =
     (case setTile (poi_position poi) (\<lambda>t. t\<lparr>pointOfInterest := Some a\<rparr>) ts of
        None \<Rightarrow> None
      | Some ts' \<Rightarrow> attachPois rest ts')"

fun attachNodes :: "(addr \<times> ResourceNode) list \<Rightarrow> Tile list list \<Rightarrow> Tile list list option" where
  "attachNodes [] ts = Some ts"
| "attachNodes ((a, node) # rest) ts =
     (case setTile (node_position node) (\<lambda>t. t\<lparr>resourceNode := Some a\<rparr>) ts of
        None \<Rightarrow> None
      | Some ts' \<Rightarrow> attachNodes rest ts')"

definition generateWorld ::
  "(string \<Rightarrow> nat \<Rightarrow> draw) \<Rightarrow> Noise \<Rightarrow> WorldGenConfig \<Rightarrow> WorldMap option" where
  "generateWorld seedrandom noise config =
     (let rng0 = newSeededRandom seedrandom (cfg_seed config);
          (table, rng1) = newSimplexNoise rng0;
          (ts0, rng2) = generateTerrain (cfg_width config) (cfg_height config) (noise table) rng1
      in do {
           (towns, rng3) \<leftarrow> generateTowns ts0 (numTowns config) rng2;
           (enemyCamps, rng4) \<leftarrow> generateEnemyCamps ts0 (numEnemyCamps config) rng3 towns;
           (nodes, rng5) \<leftarrow>
              generateResourceNodes ts0 (numResourceNodes config) rng4 towns enemyCamps;
           (neutralEncounters, rng6) \<leftarrow>
              generateNeutralEncounters ts0 (numNeutralEncounters config) rng5
                towns enemyCamps nodes;
           let allPOIs = towns @ enemyCamps @ neutralEncounters;
           ts1 \<leftarrow> attachPois (zip [0 ..< length allPOIs] allPOIs) ts0;
           ts2 \<leftarrow> attachNodes (zip [0 ..< length nodes] nodes) ts1;
           (ts3, rng7) \<leftarrow> generateRoads ts2 towns rng6;
           Some \<lparr>width = cfg_width config, height = cfg_height config, tiles = ts3,
                 poiStore = (\<lambda>a. allPOIs ! a), pointsOfInterest = [0 ..< length allPOIs],
                 nodeStore = (\<lambda>a. nodes ! a), resourceNodes = [0 ..< length nodes],
                 seed = cfg_seed config\<rparr>
         })"

text \<open>\<open>seed || Date.now().toString()\<close>: an absent or empty seed is replaced.\<close>

definition seedOr :: "string option \<Rightarrow> int \<Rightarrow> string" where
  "seedOr sd now = (case sd of None \<Rightarrow> intToString now
                    | Some t \<Rightarrow> if t = [] then intToString now else t)"

definition getDefaultWorldGenConfig :: "string option \<Rightarrow> int \<Rightarrow> WorldGenConfig" where
  "getDefaultWorldGenConfig sd now =
     \<lparr>cfg_width = 64, cfg_height = 64, cfg_seed = seedOr sd now,
      numTowns = 6, numEnemyCamps = 12, numResourceNodes = 20, numNeutralEncounters = 8\<rparr>"

section \<open>Initialising the store\<close>

definition heroNames :: "string list" where
  "heroNames = [''Alaric'', ''Seraphina'', ''Magnus'', ''Elena'', ''Theron'', ''Lyra'']"

definition createInitialHero :: "FactionId \<Rightarrow> Position \<Rightarrow> SeededRandom \<Rightarrow> Hero \<times> SeededRandom" where
  "createInitialHero fid pos rng =
     (let (hid, rng1) = randomId rng;
          (nm, rng2) = randomElement heroNames rng1;
          (u1, rng3) = randomId rng2;
          (u2, rng4) = randomId rng3
      in (\<lparr>hero_id = ''hero_'' @ hid, hero_name = nm, level = 1, experience = 0,
           experienceToNext = 100, position = pos, movementPoints = 10, maxMovementPoints = 10,
           crew = [(UNIT_TEMPLATES warrior)\<lparr>unit_id := ''unit_'' @ u1, unit_count := 10\<rparr>,
                   (UNIT_TEMPLATES archer)\<lparr>unit_id := ''unit_'' @ u2, unit_count := 5\<rparr>],
           bonuses = \<lparr>attackBonus = 0, defenseBonus = 0, movementBonus = 0, moraleBonus = 0\<rparr>,
           factionId = fid\<rparr>, rng4))"

definition createInitialFactions :: "WorldMap \<Rightarrow> SeededRandom \<Rightarrow> Faction list" where
  "createInitialFactions wm rng =
     (let pois = map (poiStore wm) (pointsOfInterest wm);
          playerTown = find (\<lambda>poi. poi_type poi = poi_town \<and> poi_factionId poi = player) pois;
          playerStartPos = (case playerTown of None \<Rightarrow> (10, 10) | Some t \<Rightarrow> poi_position t);
          enemyTowns = filter (\<lambda>poi. poi_type poi = poi_town \<and> poi_factionId poi = neutral) pois;
          enemyStartPos = (case enemyTowns of [] \<Rightarrow> (50, 50) | t # _ \<Rightarrow> poi_position t);
          (h1, rng1) = createInitialHero player playerStartPos rng;
          (h2, rng2) = createInitialHero enemy_1 enemyStartPos rng1
      in [\<lparr>faction_id = player, faction_name = ''Kingdom of Light'', color = ''#4a90d9'',
           resources = \<lparr>gold = 1000, wood = 200, stone = 100, crystals = 50\<rparr>,
           heroes = [h1],
           ownedTowns = (case playerTown of None \<Rightarrow> [] | Some t \<Rightarrow> [poi_id t]),
           isAI = False\<rparr>,
          \<lparr>faction_id = enemy_1, faction_name = ''Dark Legion'', color = ''#d94a4a'',
           resources = \<lparr>gold = 800, wood = 150, stone = 80, crystals = 30\<rparr>,
           heroes = [h2], ownedTowns = [], isAI = True\<rparr>])"

text \<open>The state the store is created with.\<close>

definition initialState :: GameState where
  "initialState =
     \<lparr>turn = 1, currentFaction = player,
      worldMap = \<lparr>width = 0, height = 0, tiles = [], poiStore = (\<lambda>a. [] ! a),
                  pointsOfInterest = [], nodeStore = (\<lambda>a. [] ! a), resourceNodes = [],
                  seed = []\<rparr>,
      factions = [], combatState = None, selectedHeroId = None, gamePhase = phase_menu,
      victoryCondition = (conquest, None), isGameOver = False, winner = None\<rparr>"

text \<open>
  \<open>Partial<GameConfig>\<close>; \<open>playerFactionId\<close>, \<open>difficulty\<close> and \<open>enableFogOfWar\<close> are
  copied into \<open>fullConfig\<close> and not read again, and are left out.
  \<open>config?.mapWidth || 64\<close>: an absent or zero width is replaced.
\<close>

record PartialGameConfig =
  mapWidth :: "int option"
  mapHeight :: "int option"
  gameSeed :: "string option"

definition sizeOr :: "int option \<Rightarrow> int" where
  "sizeOr v = (case v of None \<Rightarrow> 64 | Some n \<Rightarrow> if n = 0 then 64 else n)"

definition initGame ::
  "(string \<Rightarrow> nat \<Rightarrow> draw) \<Rightarrow> Noise \<Rightarrow> int \<Rightarrow> PartialGameConfig \<Rightarrow> GameState \<Rightarrow> GameState option"
  where
  "initGame seedrandom noise now config s =
     (let fullSeed = seedOr (gameSeed config) now;
          worldGenConfig = (getDefaultWorldGenConfig (Some fullSeed) now)
                             \<lparr>cfg_width := sizeOr (mapWidth config),
                              cfg_height := sizeOr (mapHeight config)\<rparr>
      in case generateWorld seedrandom noise worldGenConfig of
           None \<Rightarrow> None
         | Some wm \<Rightarrow>
            (let rng = newSeededRandom seedrandom fullSeed;
                 fs = createInitialFactions wm rng
             in Some (s\<lparr>worldMap := wm, factions := fs, turn := 1, currentFaction := player,
                        gamePhase := phase_world_map,
                        selectedHeroId := (case heroes (fs ! 0) of
                                             [] \<Rightarrow> None | h # _ \<Rightarrow> Some (hero_id h)),
                        isGameOver := False, winner := None\<rparr>)))"

section \<open>The command surface\<close>

text \<open>
  A command of the store with its arguments and the values it reads from outside the
  state (the clock, the draws of \<open>Math.random\<close>). \<open>run\<close> gives the state after a command
  that returns.
\<close>

datatype Command =
    AddResources FactionId PartialResources
  | SpendResources FactionId PartialResources
  | RecruitUnit string UnitType int int
  | EndTurn
  | EndCombat CombatResult
  | MoveHero string Position
  | SelectHero "string option"
  | StartCombat string "string + PointOfInterest"
  | ExecuteCombatAction int CombatAction
  | RunAutoBattle "nat \<Rightarrow> draw" "nat \<Rightarrow> int"
  | EnterTown string
  | LeaveTown

fun run :: "Command \<Rightarrow> GameState \<Rightarrow> GameState option" where
  "run (AddResources fid r) s = Some (addResources fid r s)"
| "run (SpendResources fid r) s = Some (snd (spendResources fid r s))"
| "run (RecruitUnit townId ty n now) s =
     (case recruitUnit townId ty n now s of Inl e \<Rightarrow> None | Inr (b, s') \<Rightarrow> Some s')"
| "run EndTurn s = (case endTurn s of Inl e \<Rightarrow> None | Inr (b, s') \<Rightarrow> Some s')"
| "run (EndCombat result) s = Some (endCombat result s)"
| "run (MoveHero heroId target) s =
     (case moveHero heroId target s of Inl e \<Rightarrow> None | Inr (b, s') \<Rightarrow> Some s')"
| "run (SelectHero heroId) s = Some (selectHero heroId s)"
| "run (StartCombat attackerId defenderId) s = Some (startCombat attackerId defenderId s)"
| "run (ExecuteCombatAction now action) s = Some (executeCombatAction now action s)"
| "run (RunAutoBattle rnd clock) s = Some (snd (runAutoBattle rnd clock s))"
| "run (EnterTown townId) s = Some (enterTown townId s)"
| "run LeaveTown s = Some (leaveTown s)"

text \<open>
  The states that a run of commands reaches after \<open>initGame\<close>, when every command of the
  run satisfies \<open>allowed\<close>. \<open>initGame\<close> is called on the state the store is created with,
  or again later.
\<close>

inductive reachable ::
  "(Command \<Rightarrow> bool) \<Rightarrow> (string \<Rightarrow> nat \<Rightarrow> draw) \<Rightarrow> Noise \<Rightarrow> GameState \<Rightarrow> bool"
  for allowed :: "Command \<Rightarrow> bool" and seedrandom :: "string \<Rightarrow> nat \<Rightarrow> draw" and noise :: Noise
  where
  init: "initGame seedrandom noise now config initialState = Some s
         \<Longrightarrow> reachable allowed seedrandom noise s"
| again: "reachable allowed seedrandom noise s0
          \<Longrightarrow> initGame seedrandom noise now config s0 = Some s
          \<Longrightarrow> reachable allowed seedrandom noise s"
| step: "reachable allowed seedrandom noise s \<Longrightarrow> allowed c \<Longrightarrow> run c s = Some s'
         \<Longrightarrow> reachable allowed seedrandom noise s'"

section \<open>Example states\<close>

text \<open>
  A map of three columns and two rows, a player with 100 gold and one hero at \<open>(0, 0)\<close>, an
  AI faction, a town at \<open>(1, 1)\<close> and a gold node that the player owns. The states are the
  concrete inputs of the theorems below.
\<close>

definition demoTile :: "Position \<Rightarrow> TerrainType \<Rightarrow> addr option \<Rightarrow> Tile" where
  "demoTile pos tr poi =
     \<lparr>tile_position = pos, terrain = tr, elevation = 1 / 2, movementCost = TERRAIN_COSTS tr,
      isPassable = TERRAIN_PASSABLE tr, pointOfInterest = poi, resourceNode = None\<rparr>"

definition demoTown :: PointOfInterest where
  "demoTown =
     \<lparr>poi_id = ''town_a'', poi_type = poi_town, poi_name = ''Ironhold'', poi_position = (1, 1),
      poi_factionId = neutral, garrison = Some [], isDiscovered = False,
      recruitPool = Some [recruitEntry warrior 100 0 0 5 10], buildings = Some [],
      poi_resources = Some \<lparr>gold = 100, wood = 50, stone = 30, crystals = 10\<rparr>,
      difficulty = None, rewards = None\<rparr>"

definition demoNode :: ResourceNode where
  "demoNode =
     \<lparr>node_id = ''resource_a'', resourceType = rt_gold, node_position = (0, 1),
      amountPerTurn = 5, isOwned = True, ownedBy = Some player\<rparr>"

definition demoWorld :: WorldMap where
  "demoWorld =
     \<lparr>width = 3, height = 2,
      tiles = [[demoTile (0, 0) grass None, demoTile (1, 0) road None, demoTile (2, 0) water None],
               [demoTile (0, 1) forest None, demoTile (1, 1) grass (Some 0),
                demoTile (2, 1) mountain None]],
      poiStore = (\<lambda>a. demoTown), pointsOfInterest = [0],
      nodeStore = (\<lambda>a. demoNode), resourceNodes = [0],
      seed = ''demo''\<rparr>"

definition demoUnit :: "UnitType \<Rightarrow> string \<Rightarrow> int \<Rightarrow> Unit" where
  "demoUnit ty uid n = (UNIT_TEMPLATES ty)\<lparr>unit_id := uid, unit_count := n\<rparr>"

definition demoHero :: "string \<Rightarrow> FactionId \<Rightarrow> Position \<Rightarrow> rat \<Rightarrow> Unit list \<Rightarrow> Hero" where
  "demoHero hid fid pos mp us =
     \<lparr>hero_id = hid, hero_name = ''Alaric'', level = 1, experience = 0, experienceToNext = 100,
      position = pos, movementPoints = mp, maxMovementPoints = 10, crew = us,
      bonuses = \<lparr>attackBonus = 0, defenseBonus = 0, movementBonus = 0, moraleBonus = 0\<rparr>,
      factionId = fid\<rparr>"

definition demoPlayer :: Faction where
  "demoPlayer =
     \<lparr>faction_id = player, faction_name = ''Kingdom of Light'', color = ''#4a90d9'',
      resources = \<lparr>gold = 100, wood = 200, stone = 100, crystals = 50\<rparr>,
      heroes = [demoHero ''hero_a'' player (0, 0) 2 [demoUnit warrior ''unit_a'' 10]],
      ownedTowns = [], isAI = False\<rparr>"

definition demoEnemy :: Faction where
  "demoEnemy =
     \<lparr>faction_id = enemy_1, faction_name = ''Dark Legion'', color = ''#d94a4a'',
      resources = \<lparr>gold = 800, wood = 150, stone = 80, crystals = 30\<rparr>,
      heroes = [demoHero ''hero_b'' enemy_1 (1, 1) 3
                  [demoUnit cavalry ''unit_b'' 10, demoUnit healer ''unit_c'' 1]],
      ownedTowns = [], isAI = True\<rparr>"

definition demoState :: GameState where
  "demoState =
     \<lparr>turn = 1, currentFaction = player, worldMap = demoWorld,
      factions = [demoPlayer, demoEnemy], combatState = None,
      selectedHeroId = Some ''hero_a'', gamePhase = phase_world_map,
      victoryCondition = (conquest, None), isGameOver = False, winner = None\<rparr>"

definition onlyGold :: "int \<Rightarrow> PartialResources" where
  "onlyGold n = \<lparr>p_gold = Some n, p_wood = None, p_stone = None, p_crystals = None\<rparr>"

text \<open>
  The same state with the enemy about to hand over to the player, and the battle that
  \<open>startCombat\<close> sets up between the two heroes: ten warriors at address \<open>0\<close> against ten
  cavalry at \<open>1\<close> and one healer at \<open>2\<close>.
\<close>

definition demoWrap :: GameState where
  "demoWrap = demoState\<lparr>currentFaction := enemy_1\<rparr>"

definition demoUnits :: "CombatUnit list" where
  "demoUnits = [toCombatUnit 0 (demoUnit warrior ''unit_a'' 10) 0,
                toCombatUnit 7 (demoUnit cavalry ''unit_b'' 10) 0,
                toCombatUnit 7 (demoUnit healer ''unit_c'' 1) 1]"

definition demoCombat :: CombatState where
  "demoCombat =
     \<lparr>isActive = True,
      attacker = demoHero ''hero_a'' player (0, 0) 2 [demoUnit warrior ''unit_a'' 10],
      defender = DefHero (demoHero ''hero_b'' enemy_1 (1, 1) 3
                   [demoUnit cavalry ''unit_b'' 10, demoUnit healer ''unit_c'' 1]),
      units = (\<lambda>a. demoUnits ! a), attackerUnits = [0], defenderUnits = [1, 2],
      currentTurn = attacker_side, currentUnitIndex = Some 0,
      turnOrder = [demoUnits ! 1, demoUnits ! 2, demoUnits ! 0],
      combatLog = [], gridWidth = 8, gridHeight = 6\<rparr>"

definition demoBattle :: GameState where
  "demoBattle = demoState\<lparr>combatState := Some demoCombat, gamePhase := phase_combat\<rparr>"

definition waitOf :: "string \<Rightarrow> CombatAction" where
  "waitOf src =
     \<lparr>action_type = act_wait, sourceUnit = src, targetPosition = None, targetUnit = None\<rparr>"

definition attackOn :: "string \<Rightarrow> string \<Rightarrow> CombatAction" where
  "attackOn src tgt =
     \<lparr>action_type = act_attack, sourceUnit = src, targetPosition = None, targetUnit = Some tgt\<rparr>"

text \<open>The battle after each of its three units has carried out a \<open>wait\<close>.\<close>

definition demoRoundEnd :: GameState where
  "demoRoundEnd =
     executeCombatAction 7 (waitOf ''unit_a'')
       (executeCombatAction 6 (waitOf ''unit_c'')
          (executeCombatAction 5 (waitOf ''unit_b'') demoBattle))"

text \<open>
  The elements of \<open>turnOrder\<close> with the two flags of the round cleared, and a \<open>turnOrder\<close>
  none of whose elements is marked as having acted.
\<close>

definition cleared :: "CombatUnit \<Rightarrow> CombatUnit" where
  "cleared u = u\<lparr>hasActed := False, isDefending := False\<rparr>"

definition unmarked :: "CombatState \<Rightarrow> bool" where
  "unmarked cs \<longleftrightarrow> list_all (\<lambda>u. \<not> hasActed u) (turnOrder cs)"

text \<open>
  The yield of the nodes that a faction owns, per resource kind, and a treasury with the
  yields added.
\<close>

definition nodeYield :: "ResourceNode list \<Rightarrow> FactionId \<Rightarrow> ResourceType \<Rightarrow> int" where
  "nodeYield nodes fid k =
     sum_list (map amountPerTurn
       (filter (\<lambda>n. isOwned n \<and> ownedBy n = Some fid \<and> resourceType n = k) nodes))"

definition credited :: "ResourceNode list \<Rightarrow> FactionId \<Rightarrow> Resources \<Rightarrow> Resources" where
  "credited nodes fid r =
     \<lparr>gold = gold r + nodeYield nodes fid rt_gold, wood = wood r + nodeYield nodes fid rt_wood,
      stone = stone r + nodeYield nodes fid rt_stone,
      crystals = crystals r + nodeYield nodes fid rt_crystals\<rparr>"

text \<open>The amount asked of one resource kind; an absent key asks for nothing.\<close>

definition requested :: "int option \<Rightarrow> int" where
  "requested v = (case v of None \<Rightarrow> 0 | Some n \<Rightarrow> n)"

text \<open>
  Paths on the map. Two positions are adjacent when they differ by one step along one axis.
  \<open>enterCost\<close> is the cost of stepping onto a position: the movement cost of its tile, when
  the tile exists, is passable and has a finite cost. \<open>followPath s p path\<close> walks \<open>path\<close>
  from \<open>p\<close>, each step to an adjacent position that can be entered, and gives the end of the
  walk with the sum of the costs of the tiles entered.
\<close>

definition adjacent :: "Position \<Rightarrow> Position \<Rightarrow> bool" where
  "adjacent p q \<longleftrightarrow> \<bar>fst p - fst q\<bar> + \<bar>snd p - snd q\<bar> = 1"

definition enterCost :: "GameState \<Rightarrow> Position \<Rightarrow> rat option" where
  "enterCost s p =
     (case getTileAt s p of
        None \<Rightarrow> None
      | Some t \<Rightarrow> if isPassable t
                  then (case movementCost t of Finite k \<Rightarrow> Some k | Infinity \<Rightarrow> None)
                  else None)"

fun followPath :: "GameState \<Rightarrow> Position \<Rightarrow> Position list \<Rightarrow> (Position \<times> rat) option" where
  "followPath s p [] = Some (p, 0)"
| "followPath s p (q # qs) =
     (if adjacent p q
      then (case enterCost s q of
              None \<Rightarrow> None
            | Some k \<Rightarrow> map_option (\<lambda>(e, c). (e, k + c)) (followPath s q qs))
      else None)"

definition pathTo :: "GameState \<Rightarrow> Position \<Rightarrow> rat \<Rightarrow> Position \<Rightarrow> bool" where
  "pathTo s origin mp p \<longleftrightarrow>
     (\<exists>path c. followPath s origin path = Some (p, c) \<and> c \<le> mp)"

text \<open>
  Two properties of the states that the program builds: no tile that can be entered has a
  negative cost (the costs come from \<open>TERRAIN_COSTS\<close>), and the factions have distinct ids
  and each hero names the faction that holds it.
\<close>

definition costsNonneg :: "GameState \<Rightarrow> bool" where
  "costsNonneg s \<longleftrightarrow> (\<forall>p k. enterCost s p = Some k \<longrightarrow> 0 \<le> k)"

definition rosterConsistent :: "Faction list \<Rightarrow> bool" where
  "rosterConsistent fs \<longleftrightarrow>
     distinct (map faction_id fs)
     \<and> (\<forall>f \<in> set fs. \<forall>h \<in> set (heroes f). factionId h = faction_id f)"

text \<open>
  A position is inside the border of a \<open>w\<close> by \<open>h\<close> map when it is on no edge row and no
  edge column. A list of points of interest is spaced when any two of its members, at
  different indices, are at Manhattan distance \<open>8\<close> or more.
\<close>

definition insideBorder :: "int \<Rightarrow> int \<Rightarrow> Position \<Rightarrow> bool" where
  "insideBorder w h p \<longleftrightarrow> 1 \<le> fst p \<and> fst p \<le> w - 2 \<and> 1 \<le> snd p \<and> snd p \<le> h - 2"

definition spaced :: "PointOfInterest list \<Rightarrow> bool" where
  "spaced ts \<longleftrightarrow>
     (\<forall>i < length ts. \<forall>j < length ts. i \<noteq> j
        \<longrightarrow> 8 \<le> manhattanDistance (poi_position (ts ! i)) (poi_position (ts ! j)))"

text \<open>
  A grid of tiles is a \<open>w\<close> by \<open>h\<close> rectangle when it has \<open>h\<close> rows of \<open>w\<close> tiles each; a
  position is in the grid when it names one of its tiles.
\<close>

definition rect :: "nat \<Rightarrow> nat \<Rightarrow> Tile list list \<Rightarrow> bool" where
  "rect w h ts \<longleftrightarrow> length ts = h \<and> (\<forall>row \<in> set ts. length row = w)"

definition inGrid :: "nat \<Rightarrow> nat \<Rightarrow> Position \<Rightarrow> bool" where
  "inGrid w h p \<longleftrightarrow> 0 \<le> fst p \<and> fst p < int w \<and> 0 \<le> snd p \<and> snd p < int h"

text \<open>
  A concrete run of the generator: a map of twenty columns and three rows with two towns and
  one resource node asked for, a seed stream whose draws are all \<open>0\<close>, and a noise function
  that is \<open>0\<close> everywhere (every tile is grass).
\<close>

definition demoConfig :: WorldGenConfig where
  "demoConfig =
     \<lparr>cfg_width = 20, cfg_height = 3, cfg_seed = ''demo'',
      numTowns = 2, numEnemyCamps = 0, numResourceNodes = 1, numNeutralEncounters = 0\<rparr>"

definition zeroDraws :: "string \<Rightarrow> nat \<Rightarrow> draw" where
  "zeroDraws sd n = draw_of 0 1"

definition flatNoise :: Noise where
  "flatNoise table x y octaves persistence = 0"

text \<open>
  Treasuries: a quadruple with no negative entry, a state all of whose treasuries are such,
  and a map none of whose resource nodes is owned. \<open>listed\<close> holds of the six commands
  \<open>addResources\<close>, \<open>spendResources\<close>, \<open>recruitUnit\<close>, \<open>endTurn\<close>, \<open>endCombat\<close> and
  \<open>moveHero\<close>; \<open>sane\<close> holds of every command but an \<open>addResources\<close> with a negative
  amount and an \<open>endCombat\<close> with a negative loot. \<open>demoStart\<close> is the state after
  \<open>initGame\<close> on the store as created, with the seed \<open>demo\<close> and a map of twenty by three.
\<close>

definition nonneg :: "Resources \<Rightarrow> bool" where
  "nonneg r \<longleftrightarrow> 0 \<le> gold r \<and> 0 \<le> wood r \<and> 0 \<le> stone r \<and> 0 \<le> crystals r"

definition treasuriesNonneg :: "GameState \<Rightarrow> bool" where
  "treasuriesNonneg s \<longleftrightarrow> (\<forall>f \<in> set (factions s). nonneg (resources f))"

definition noOwnedNodes :: "WorldMap \<Rightarrow> bool" where
  "noOwnedNodes wm \<longleftrightarrow> (\<forall>a \<in> set (resourceNodes wm). \<not> isOwned (nodeStore wm a))"

fun listed :: "Command \<Rightarrow> bool" where
  "listed (AddResources fid r) = True"
| "listed (SpendResources fid r) = True"
| "listed (RecruitUnit townId ty n now) = True"
| "listed EndTurn = True"
| "listed (EndCombat result) = True"
| "listed (MoveHero heroId target) = True"
| "listed _ = False"

definition amountOk :: "int option \<Rightarrow> bool" where
  "amountOk v = (case v of None \<Rightarrow> True | Some n \<Rightarrow> 0 \<le> n)"

fun sane :: "Command \<Rightarrow> bool" where
  "sane (AddResources fid r) =
     (amountOk (p_gold r) \<and> amountOk (p_wood r) \<and> amountOk (p_stone r) \<and> amountOk (p_crystals r))"
| "sane (EndCombat result) = nonneg (resourcesLooted result)"
| "sane _ = True"

definition demoSetup :: PartialGameConfig where
  "demoSetup = \<lparr>mapWidth = Some 20, mapHeight = Some 3, gameSeed = Some ''demo''\<rparr>"

definition demoStart :: GameState where
  "demoStart = the (initGame zeroDraws flatNoise 0 demoSetup initialState)"

definition settled :: "GameState \<Rightarrow> bool" where
  "settled s \<longleftrightarrow> treasuriesNonneg s \<and> noOwnedNodes (worldMap s)"

text \<open>
  Two streams of \<open>Math.random\<close> draws, all \<open>0\<close> and all \<open>1/2\<close>, a clock that always reads
  \<open>0\<close>, and the example battle with the healer left out: one unit against one. A battle
  is a duel when neither roster holds more than one unit. \<open>untimed\<close> is a state with the
  timestamps of the combat log set to \<open>0\<close>.
\<close>

definition lowDraws :: "nat \<Rightarrow> draw" where
  "lowDraws k = draw_of 0 1"

definition midDraws :: "nat \<Rightarrow> draw" where
  "midDraws k = draw_of 1 2"

definition stillClock :: "nat \<Rightarrow> int" where
  "stillClock k = 0"

definition demoDuel :: GameState where
  "demoDuel = demoBattle\<lparr>combatState := Some (demoCombat\<lparr>defenderUnits := [1]\<rparr>)\<rparr>"

definition duel :: "GameState \<Rightarrow> bool" where
  "duel s \<longleftrightarrow>
     (case combatState s of
        None \<Rightarrow> True
      | Some cs \<Rightarrow> length (attackerUnits cs) \<le> 1 \<and> length (defenderUnits cs) \<le> 1)"

definition untimedLog :: "CombatState \<Rightarrow> CombatState" where
  "untimedLog cs = cs\<lparr>combatLog := map (\<lambda>e. e\<lparr>timestamp := 0\<rparr>) (combatLog cs)\<rparr>"

definition untimed :: "GameState \<Rightarrow> GameState" where
  "untimed s =
     s\<lparr>combatState :=
         map_option (\<lambda>cs. cs\<lparr>combatLog := map (\<lambda>e. e\<lparr>timestamp := 0\<rparr>) (combatLog cs)\<rparr>)
                    (combatState s)\<rparr>"

text \<open>
  A tile whose movement cost, when it is a number, is not negative, a grid of such tiles,
  and what \<open>rosterConsistent\<close> reads of a roster: the faction ids, and under each the
  \<open>factionId\<close> of its heroes.
\<close>

definition costOk :: "Tile \<Rightarrow> bool" where
  "costOk t \<longleftrightarrow> (\<forall>k. movementCost t = Finite k \<longrightarrow> 0 \<le> k)"

definition tilesOk :: "Tile list list \<Rightarrow> bool" where
  "tilesOk ts \<longleftrightarrow> (\<forall>row \<in> set ts. \<forall>t \<in> set row. costOk t)"

definition shape :: "Faction list \<Rightarrow> (FactionId \<times> FactionId list) list" where
  "shape fs = map (\<lambda>f. (faction_id f, map factionId (heroes f))) fs"

section \<open>Properties\<close>

subsection \<open>Finding and replacing the first match\<close>

lemma findIndex_range: "- 1 \<le> findIndex P xs \<and> findIndex P xs < int (length xs)"
  by (induction xs) (auto simp: Let_def)

lemma findIndex_neg: "findIndex P xs < 0 \<longleftrightarrow> find P xs = None"
  by (induction xs) (auto simp: Let_def)

lemma find_Some_nth:
  "find P xs = Some x \<Longrightarrow> xs ! nat (findIndex P xs) = x \<and> 0 \<le> findIndex P xs"
proof (induction xs)
  case Nil
  then show ?case by simp
next
  case (Cons a xs)
  show ?case
  proof (cases "P a")
    case True
    with Cons.prems show ?thesis by simp
  next
    case False
    with Cons.prems have f: "find P xs = Some x" by simp
    from Cons.IH[OF f] have "xs ! nat (findIndex P xs) = x" "0 \<le> findIndex P xs" by auto
    then show ?thesis using False by (simp add: Let_def nat_add_distrib)
  qed
qed

lemma update_first_nth:
  "find P xs = Some x \<Longrightarrow> update_first P g xs = xs[nat (findIndex P xs) := g x]"
proof (induction xs)
  case Nil
  then show ?case by simp
next
  case (Cons a xs)
  show ?case
  proof (cases "P a")
    case True
    with Cons.prems show ?thesis by simp
  next
    case False
    with Cons.prems have f: "find P xs = Some x" by simp
    from find_Some_nth[OF f] have "0 \<le> findIndex P xs" by simp
    then show ?thesis using False Cons.IH[OF f] by (simp add: Let_def nat_add_distrib)
  qed
qed

lemma update_first_None: "find P xs = None \<Longrightarrow> update_first P g xs = xs"
  by (induction xs) (auto split: if_splits)

subsection \<open>spendResources\<close>

lemma sub_partial_eq:
  "sub_partial req r =
     \<lparr>gold = gold r - requested (p_gold req), wood = wood r - requested (p_wood req),
      stone = stone r - requested (p_stone req),
      crystals = crystals r - requested (p_crystals req)\<rparr>"
  by (simp add: sub_partial_def truthy_def requested_def split: option.splits)

text \<open>
  C1. \<open>spendResources\<close> is all-or-nothing. For a faction \<open>f\<close> found under \<open>fid\<close>: when the
  treasury of \<open>f\<close> covers every requested kind, the call returns \<open>true\<close> and the new state
  is the old one with \<open>f\<close>, at its place in the roster, holding for every kind the old amount
  less the requested amount; when some requested kind exceeds the treasury, the call returns
  \<open>false\<close> and the state, hence every resource of every faction, is unchanged.
\<close>

theorem spendResources_all_or_nothing:
  assumes "getFaction s fid = Some f"
  shows "((\<forall>n. p_gold req = Some n \<longrightarrow> n \<le> gold (resources f)) \<and>
          (\<forall>n. p_wood req = Some n \<longrightarrow> n \<le> wood (resources f)) \<and>
          (\<forall>n. p_stone req = Some n \<longrightarrow> n \<le> stone (resources f)) \<and>
          (\<forall>n. p_crystals req = Some n \<longrightarrow> n \<le> crystals (resources f))
          \<longrightarrow> spendResources fid req s =
               (True, s\<lparr>factions := (factions s)
                      [nat (findIndex (\<lambda>g. faction_id g = fid) (factions s)) :=
                         f\<lparr>resources :=
                             \<lparr>gold = gold (resources f) - requested (p_gold req),
                              wood = wood (resources f) - requested (p_wood req),
                              stone = stone (resources f) - requested (p_stone req),
                              crystals = crystals (resources f) - requested (p_crystals req)\<rparr>\<rparr>]\<rparr>))
       \<and> ((\<exists>n. p_gold req = Some n \<and> n > gold (resources f)) \<or>
          (\<exists>n. p_wood req = Some n \<and> n > wood (resources f)) \<or>
          (\<exists>n. p_stone req = Some n \<and> n > stone (resources f)) \<or>
          (\<exists>n. p_crystals req = Some n \<and> n > crystals (resources f))
          \<longrightarrow> spendResources fid req s = (False, s))"
proof -
  have f: "find (\<lambda>g. faction_id g = fid) (factions s) = Some f"
    using assms by (simp add: getFaction_def)
  show ?thesis
    using assms
    by (auto simp: spendResources_def canAfford_def covers_def update_first_nth[OF f]
          sub_partial_eq split: option.splits)
qed

theorem spendResources_all_or_nothing_witness:
  "getFaction demoState player = Some demoPlayer
   \<and> spendResources player (onlyGold 50) demoState =
       (True, demoState\<lparr>factions :=
          [demoPlayer\<lparr>resources := \<lparr>gold = 50, wood = 200, stone = 100, crystals = 50\<rparr>\<rparr>,
           demoEnemy]\<rparr>)
   \<and> spendResources player (onlyGold 150) demoState = (False, demoState)"
proof -
  have h: "getFaction demoState player = Some demoPlayer"
    by (simp add: getFaction_def demoState_def demoPlayer_def)
  have i: "nat (findIndex (\<lambda>g. faction_id g = player) (factions demoState)) = 0"
    by (simp add: demoState_def demoPlayer_def)
  have r: "resources demoPlayer = \<lparr>gold = 100, wood = 200, stone = 100, crystals = 50\<rparr>"
    by (simp add: demoPlayer_def)
  from spendResources_all_or_nothing[OF h, of "onlyGold 50"]
  have a: "spendResources player (onlyGold 50) demoState =
       (True, demoState\<lparr>factions :=
          [demoPlayer\<lparr>resources := \<lparr>gold = 50, wood = 200, stone = 100, crystals = 50\<rparr>\<rparr>,
           demoEnemy]\<rparr>)"
    by (simp add: onlyGold_def requested_def i r) (simp add: demoState_def)
  from spendResources_all_or_nothing[OF h, of "onlyGold 150"]
  have b: "spendResources player (onlyGold 150) demoState = (False, demoState)"
    by (simp add: onlyGold_def r)
  from h a b show ?thesis by simp
qed

subsection \<open>The example states, evaluated\<close>

lemmas demo_defs = demoState_def demoPlayer_def demoEnemy_def demoHero_def demoBattle_def
  demoCombat_def demoUnits_def demoUnit_def toCombatUnit_def mk_template_def Unit.defs
  CombatUnit.defs demoWorld_def demoTile_def demoTown_def demoNode_def demoWrap_def
  waitOf_def attackOn_def

lemma startCombat_demo: "startCombat ''hero_a'' (Inl ''hero_b'') demoState = demoBattle"
  by (simp add: startCombat_def getHero_def demo_defs nth_append)

lemma demo_find:
  "findUnit demoCombat ''unit_a'' = Some 0" "findUnit demoCombat ''unit_c'' = Some 2"
  by (simp_all add: findUnit_def demo_defs)

subsection \<open>endTurn\<close>

lemma fold_creditNode: "fold (creditNode fid) nodes r = credited nodes fid r"
proof (induction nodes arbitrary: r)
  case Nil
  show ?case by (simp add: credited_def nodeYield_def)
next
  case (Cons n nodes)
  have "fold (creditNode fid) (n # nodes) r = credited nodes fid (creditNode fid n r)"
    by (simp add: Cons.IH)
  also have "\<dots> = credited (n # nodes) fid r"
    by (cases "resourceType n")
       (simp_all add: creditNode_def addTo_def credited_def nodeYield_def)
  finally show ?case .
qed

lemma collect_eq: "collect nodes f = f\<lparr>resources := credited nodes (faction_id f) (resources f)\<rparr>"
  by (simp add: collect_def fold_creditNode)

lemma findIndex_first:
  "i < length xs \<Longrightarrow> P (xs ! i) \<Longrightarrow> \<forall>j < i. \<not> P (xs ! j) \<Longrightarrow> findIndex P xs = int i"
proof (induction xs arbitrary: i)
  case Nil
  then show ?case by simp
next
  case (Cons a xs)
  show ?case
  proof (cases i)
    case 0
    with Cons.prems show ?thesis by simp
  next
    case (Suc k)
    with Cons.prems(3) have na: "\<not> P a" by auto
    from Suc Cons.prems have "k < length xs" "P (xs ! k)" by simp_all
    moreover have "\<forall>j < k. \<not> P (xs ! j)"
    proof (intro allI impI)
      fix j assume "j < k"
      then have "Suc j < i" using Suc by simp
      with Cons.prems(3) have "\<not> P ((a # xs) ! Suc j)" by blast
      then show "\<not> P (xs ! j)" by simp
    qed
    ultimately have "findIndex P xs = int k" by (rule Cons.IH)
    with na Suc show ?thesis by (simp add: Let_def)
  qed
qed

lemma findIndex_none: "\<forall>x \<in> set xs. \<not> P x \<Longrightarrow> findIndex P xs = - 1"
  by (induction xs) (simp_all add: Let_def)

lemma endTurn_empty: "factions s = [] \<Longrightarrow> endTurn s = Inl TypeError"
  by (simp add: endTurn_def)

text \<open>
  C5, as stated, at the state the store is created with: no faction, and \<open>endTurn\<close> throws.
\<close>

theorem endTurn_initial_throws: "endTurn initialState = Inl TypeError"
  by (simp add: endTurn_def initialState_def)

text \<open>
  C5. With a roster that is not empty, \<open>endTurn\<close> returns, and with \<open>n\<close> the place in the
  roster of the faction \<open>next\<close> that it makes the current one: \<open>n\<close> follows the first place
  \<open>i\<close> that holds the current faction, and is \<open>0\<close> when \<open>i\<close> is the last place or when no
  place holds the current faction; the turn counter grows by one exactly when \<open>next\<close> is the
  player, which in a roster of distinct factions that starts with the player is exactly
  when \<open>n\<close> is \<open>0\<close>, and then every faction's treasury gains, per kind, the yields of the
  nodes it owns, and otherwise no treasury changes; every hero of \<open>next\<close> has its movement
  points set to its maximum, the heroes of the other factions are unchanged; the first hero
  of \<open>next\<close>, when there is one, is selected.
\<close>

theorem endTurn_advances:
  assumes "factions s \<noteq> []"
  shows "\<exists>scheduled s' n.
     endTurn s = Inr (scheduled, s') \<and> n < length (factions s)
     \<and> (\<forall>i < length (factions s).
          faction_id (factions s ! i) = currentFaction s
          \<and> (\<forall>j < i. faction_id (factions s ! j) \<noteq> currentFaction s)
          \<longrightarrow> n = (if i + 1 < length (factions s) then i + 1 else 0))
     \<and> ((\<forall>f \<in> set (factions s). faction_id f \<noteq> currentFaction s) \<longrightarrow> n = 0)
     \<and> (faction_id (factions s ! 0) = player \<and> distinct (map faction_id (factions s))
          \<longrightarrow> (faction_id (factions s ! n) = player \<longleftrightarrow> n = 0))
     \<and> (let next = factions s ! n;
             nodes = map (nodeStore (worldMap s)) (resourceNodes (worldMap s))
         in currentFaction s' = faction_id next
          \<and> turn s' = (if faction_id next = player then turn s + 1 else turn s)
          \<and> length (factions s') = length (factions s)
          \<and> (\<forall>j < length (factions s).
               faction_id (factions s' ! j) = faction_id (factions s ! j)
               \<and> resources (factions s' ! j) =
                 (if faction_id next = player
                  then credited nodes (faction_id (factions s ! j)) (resources (factions s ! j))
                  else resources (factions s ! j)))
          \<and> heroes (factions s' ! n) =
               map (\<lambda>h. h\<lparr>movementPoints := maxMovementPoints h\<rparr>) (heroes next)
          \<and> (\<forall>j < length (factions s). j \<noteq> n
                \<longrightarrow> heroes (factions s' ! j) = heroes (factions s ! j))
          \<and> selectedHeroId s' =
               (case heroes next of [] \<Rightarrow> selectedHeroId s | h # _ \<Rightarrow> Some (hero_id h)))"
proof -
  let ?fs = "factions s"
  let ?P = "\<lambda>f. faction_id f = currentFaction s"
  let ?i = "findIndex ?P ?fs"
  let ?n = "nat ((?i + 1) mod int (length ?fs))"
  have len: "0 < length ?fs" using assms by simp
  have rng: "- 1 \<le> ?i" "?i < int (length ?fs)" using findIndex_range[of _ ?fs] by auto
  have n_lt: "?n < length ?fs" using len rng by (simp add: nat_less_iff)
  have a: "\<forall>i < length ?fs. ?P (?fs ! i) \<and> (\<forall>j < i. \<not> ?P (?fs ! j))
             \<longrightarrow> ?n = (if i + 1 < length ?fs then i + 1 else 0)"
  proof (intro allI impI)
    fix i assume i: "i < length ?fs" and h: "?P (?fs ! i) \<and> (\<forall>j < i. \<not> ?P (?fs ! j))"
    then have "?i = int i" by (intro findIndex_first) auto
    then have n: "?n = Suc i mod length ?fs"
      by (simp add: nat_mod_distrib nat_add_distrib)
    show "?n = (if i + 1 < length ?fs then i + 1 else 0)"
    proof (cases "i + 1 < length ?fs")
      case True
      then show ?thesis using n by simp
    next
      case False
      with i have "Suc i = length ?fs" by simp
      then show ?thesis using n False by simp
    qed
  qed
  have b: "(\<forall>f \<in> set ?fs. \<not> ?P f) \<longrightarrow> ?n = 0"
    by (auto simp: findIndex_none)
  have c: "faction_id (?fs ! 0) = player \<and> distinct (map faction_id ?fs)
             \<longrightarrow> (faction_id (?fs ! ?n) = player \<longleftrightarrow> ?n = 0)"
  proof (intro impI)
    assume h: "faction_id (?fs ! 0) = player \<and> distinct (map faction_id ?fs)"
    then have d: "distinct (map faction_id ?fs)" by simp
    have "map faction_id ?fs ! ?n = map faction_id ?fs ! 0 \<longleftrightarrow> ?n = 0"
      using d n_lt len by (intro nth_eq_iff_index_eq) simp_all
    with h n_lt len show "faction_id (?fs ! ?n) = player \<longleftrightarrow> ?n = 0" by simp
  qed
  have e: "\<exists>scheduled s'. endTurn s = Inr (scheduled, s')
     \<and> (let next = ?fs ! ?n;
             nodes = map (nodeStore (worldMap s)) (resourceNodes (worldMap s))
         in currentFaction s' = faction_id next
          \<and> turn s' = (if faction_id next = player then turn s + 1 else turn s)
          \<and> length (factions s') = length ?fs
          \<and> (\<forall>j < length ?fs.
               faction_id (factions s' ! j) = faction_id (?fs ! j)
               \<and> resources (factions s' ! j) =
                 (if faction_id next = player
                  then credited nodes (faction_id (?fs ! j)) (resources (?fs ! j))
                  else resources (?fs ! j)))
          \<and> heroes (factions s' ! ?n) =
               map (\<lambda>h. h\<lparr>movementPoints := maxMovementPoints h\<rparr>) (heroes next)
          \<and> (\<forall>j < length ?fs. j \<noteq> ?n \<longrightarrow> heroes (factions s' ! j) = heroes (?fs ! j))
          \<and> selectedHeroId s' =
               (case heroes next of [] \<Rightarrow> selectedHeroId s | h # _ \<Rightarrow> Some (hero_id h)))"
    unfolding endTurn_def Let_def
    using assms n_lt
    by (auto simp: collect_eq nth_list_update split: list.splits)
  from e obtain scheduled s' where e1: "endTurn s = Inr (scheduled, s')"
    and e2: "let next = ?fs ! ?n;
             nodes = map (nodeStore (worldMap s)) (resourceNodes (worldMap s))
         in currentFaction s' = faction_id next
          \<and> turn s' = (if faction_id next = player then turn s + 1 else turn s)
          \<and> length (factions s') = length ?fs
          \<and> (\<forall>j < length ?fs.
               faction_id (factions s' ! j) = faction_id (?fs ! j)
               \<and> resources (factions s' ! j) =
                 (if faction_id next = player
                  then credited nodes (faction_id (?fs ! j)) (resources (?fs ! j))
                  else resources (?fs ! j)))
          \<and> heroes (factions s' ! ?n) =
               map (\<lambda>h. h\<lparr>movementPoints := maxMovementPoints h\<rparr>) (heroes next)
          \<and> (\<forall>j < length ?fs. j \<noteq> ?n \<longrightarrow> heroes (factions s' ! j) = heroes (?fs ! j))
          \<and> selectedHeroId s' =
               (case heroes next of [] \<Rightarrow> selectedHeroId s | h # _ \<Rightarrow> Some (hero_id h))"
    by blast
  from e1 n_lt a b c e2 show ?thesis
    by (intro exI[where x = scheduled] exI[where x = s'] exI[where x = ?n] conjI) assumption+
qed

theorem endTurn_advances_witness:
  "factions demoState \<noteq> [] \<and> factions demoWrap \<noteq> []
   \<and> (\<exists>scheduled s'. endTurn demoState = Inr (scheduled, s')
      \<and> currentFaction s' = enemy_1 \<and> turn s' = 1
      \<and> resources (factions s' ! 0) = \<lparr>gold = 100, wood = 200, stone = 100, crystals = 50\<rparr>
      \<and> map movementPoints (heroes (factions s' ! 0)) = [2]
      \<and> map movementPoints (heroes (factions s' ! 1)) = [10]
      \<and> selectedHeroId s' = Some ''hero_b'')
   \<and> (\<exists>scheduled s'. endTurn demoWrap = Inr (scheduled, s')
      \<and> currentFaction s' = player \<and> turn s' = 2
      \<and> resources (factions s' ! 0) = \<lparr>gold = 105, wood = 200, stone = 100, crystals = 50\<rparr>
      \<and> resources (factions s' ! 1) = \<lparr>gold = 800, wood = 150, stone = 80, crystals = 30\<rparr>
      \<and> map movementPoints (heroes (factions s' ! 0)) = [10]
      \<and> map movementPoints (heroes (factions s' ! 1)) = [3]
      \<and> selectedHeroId s' = Some ''hero_a'')"
proof -
  have h1: "factions demoState \<noteq> []" by (simp add: demo_defs)
  have h2: "factions demoWrap \<noteq> []" by (simp add: demo_defs)
  from endTurn_advances[OF h1] obtain scheduled s' n where
    e: "endTurn demoState = Inr (scheduled, s')" and
    i: "\<forall>i < length (factions demoState).
          faction_id (factions demoState ! i) = currentFaction demoState
          \<and> (\<forall>j < i. faction_id (factions demoState ! j) \<noteq> currentFaction demoState)
          \<longrightarrow> n = (if i + 1 < length (factions demoState) then i + 1 else 0)" and
    p: "let next = factions demoState ! n;
             nodes = map (nodeStore (worldMap demoState)) (resourceNodes (worldMap demoState))
         in currentFaction s' = faction_id next
          \<and> turn s' = (if faction_id next = player then turn demoState + 1 else turn demoState)
          \<and> length (factions s') = length (factions demoState)
          \<and> (\<forall>j < length (factions demoState).
               faction_id (factions s' ! j) = faction_id (factions demoState ! j)
               \<and> resources (factions s' ! j) =
                 (if faction_id next = player
                  then credited nodes (faction_id (factions demoState ! j))
                         (resources (factions demoState ! j))
                  else resources (factions demoState ! j)))
          \<and> heroes (factions s' ! n) =
               map (\<lambda>h. h\<lparr>movementPoints := maxMovementPoints h\<rparr>) (heroes next)
          \<and> (\<forall>j < length (factions demoState). j \<noteq> n
                \<longrightarrow> heroes (factions s' ! j) = heroes (factions demoState ! j))
          \<and> selectedHeroId s' =
               (case heroes next of [] \<Rightarrow> selectedHeroId demoState | h # _ \<Rightarrow> Some (hero_id h))"
    by blast
  from i[rule_format, of 0] have n: "n = 1" by (simp add: demo_defs)
  from p have q: "currentFaction s' = enemy_1 \<and> turn s' = 1
      \<and> resources (factions s' ! 0) = \<lparr>gold = 100, wood = 200, stone = 100, crystals = 50\<rparr>
      \<and> map movementPoints (heroes (factions s' ! 0)) = [2]
      \<and> map movementPoints (heroes (factions s' ! 1)) = [10]
      \<and> selectedHeroId s' = Some ''hero_b''"
    unfolding n Let_def
    by (simp add: demo_defs All_less_Suc)
  from endTurn_advances[OF h2] obtain scheduled2 s2 m where
    e2: "endTurn demoWrap = Inr (scheduled2, s2)" and
    i2: "\<forall>i < length (factions demoWrap).
          faction_id (factions demoWrap ! i) = currentFaction demoWrap
          \<and> (\<forall>j < i. faction_id (factions demoWrap ! j) \<noteq> currentFaction demoWrap)
          \<longrightarrow> m = (if i + 1 < length (factions demoWrap) then i + 1 else 0)" and
    p2: "let next = factions demoWrap ! m;
             nodes = map (nodeStore (worldMap demoWrap)) (resourceNodes (worldMap demoWrap))
         in currentFaction s2 = faction_id next
          \<and> turn s2 = (if faction_id next = player then turn demoWrap + 1 else turn demoWrap)
          \<and> length (factions s2) = length (factions demoWrap)
          \<and> (\<forall>j < length (factions demoWrap).
               faction_id (factions s2 ! j) = faction_id (factions demoWrap ! j)
               \<and> resources (factions s2 ! j) =
                 (if faction_id next = player
                  then credited nodes (faction_id (factions demoWrap ! j))
                         (resources (factions demoWrap ! j))
                  else resources (factions demoWrap ! j)))
          \<and> heroes (factions s2 ! m) =
               map (\<lambda>h. h\<lparr>movementPoints := maxMovementPoints h\<rparr>) (heroes next)
          \<and> (\<forall>j < length (factions demoWrap). j \<noteq> m
                \<longrightarrow> heroes (factions s2 ! j) = heroes (factions demoWrap ! j))
          \<and> selectedHeroId s2 =
               (case heroes next of [] \<Rightarrow> selectedHeroId demoWrap | h # _ \<Rightarrow> Some (hero_id h))"
    by blast
  from i2[rule_format, of 1] have m: "m = 0" by (simp add: demo_defs)
  from p2 have q2: "currentFaction s2 = player \<and> turn s2 = 2
      \<and> resources (factions s2 ! 0) = \<lparr>gold = 105, wood = 200, stone = 100, crystals = 50\<rparr>
      \<and> resources (factions s2 ! 1) = \<lparr>gold = 800, wood = 150, stone = 80, crystals = 30\<rparr>
      \<and> map movementPoints (heroes (factions s2 ! 0)) = [10]
      \<and> map movementPoints (heroes (factions s2 ! 1)) = [3]
      \<and> selectedHeroId s2 = Some ''hero_a''"
    unfolding m Let_def
    by (simp add: demo_defs credited_def nodeYield_def All_less_Suc)
  have part1: "\<exists>scheduled s'. endTurn demoState = Inr (scheduled, s')
      \<and> currentFaction s' = enemy_1 \<and> turn s' = 1
      \<and> resources (factions s' ! 0) = \<lparr>gold = 100, wood = 200, stone = 100, crystals = 50\<rparr>
      \<and> map movementPoints (heroes (factions s' ! 0)) = [2]
      \<and> map movementPoints (heroes (factions s' ! 1)) = [10]
      \<and> selectedHeroId s' = Some ''hero_b''"
    using e q by (intro exI[where x = scheduled] exI[where x = s'] conjI) simp_all
  have part2: "\<exists>scheduled s'. endTurn demoWrap = Inr (scheduled, s')
      \<and> currentFaction s' = player \<and> turn s' = 2
      \<and> resources (factions s' ! 0) = \<lparr>gold = 105, wood = 200, stone = 100, crystals = 50\<rparr>
      \<and> resources (factions s' ! 1) = \<lparr>gold = 800, wood = 150, stone = 80, crystals = 30\<rparr>
      \<and> map movementPoints (heroes (factions s' ! 0)) = [10]
      \<and> map movementPoints (heroes (factions s' ! 1)) = [3]
      \<and> selectedHeroId s' = Some ''hero_a''"
    using e2 q2 by (intro exI[where x = scheduled2] exI[where x = s2] conjI) simp_all
  from h1 h2 part1 part2 show ?thesis by (intro conjI) assumption+
qed

subsection \<open>Combat\<close>

lemma find_SomeD: "find P xs = Some x \<Longrightarrow> x \<in> set xs \<and> P x"
  by (induction xs) (auto split: if_splits)

lemma splice1_indexOf: "t \<in> set xs \<Longrightarrow> splice1 (indexOf xs t) xs = remove1 t xs"
proof (induction xs)
  case Nil
  then show ?case by simp
next
  case (Cons a xs)
  show ?case
  proof (cases "a = t")
    case True
    then show ?thesis by (simp add: splice1_def indexOf_def)
  next
    case False
    with Cons.prems have m: "t \<in> set xs" by simp
    then have "find (\<lambda>u. u = t) xs \<noteq> None" by (auto simp: find_None_iff)
    then have nn: "0 \<le> findIndex (\<lambda>u. u = t) xs"
      using findIndex_neg[of "\<lambda>u. u = t" xs] by auto
    have lt: "findIndex (\<lambda>u. u = t) xs < int (length xs)" using findIndex_range by blast
    from Cons.IH[OF m] nn lt
    have "take (nat (findIndex (\<lambda>u. u = t) xs)) xs
            @ drop (Suc (nat (findIndex (\<lambda>u. u = t) xs))) xs = remove1 t xs"
      by (simp add: splice1_def indexOf_def Let_def min_def)
    then show ?thesis using False nn lt
      by (simp add: splice1_def indexOf_def Let_def min_def nat_add_distrib)
  qed
qed

lemma resetRound_frame:
  "units (resetRound cs) = units cs"
  "attackerUnits (resetRound cs) = attackerUnits cs"
  "defenderUnits (resetRound cs) = defenderUnits cs"
  "combatLog (resetRound cs) = combatLog cs"
  "turnOrder (resetRound cs) = map cleared (turnOrder cs)"
  by (simp_all add: resetRound_def cleared_def)

lemma cleared_idem: "cleared (cleared u) = cleared u"
  by (simp add: cleared_def)

lemma finishAction_frame:
  "attackerUnits (finishAction a cs) = attackerUnits cs"
  "defenderUnits (finishAction a cs) = defenderUnits cs"
  "combatLog (finishAction a cs) = combatLog cs"
  by (simp_all add: finishAction_def Let_def updUnit_def resetRound_frame)

lemma finishAction_units:
  "units (finishAction a cs) = (units cs)(a := (units cs a)\<lparr>hasActed := True\<rparr>)"
  by (simp add: finishAction_def Let_def updUnit_def resetRound_frame)

lemma finishAction_stats:
  "stats (units (finishAction a cs) x) = stats (units cs x)"
  "unit_count (units (finishAction a cs) x) = unit_count (units cs x)"
  by (simp_all add: finishAction_units)

lemma finishAction_turnOrder:
  "turnOrder (finishAction a cs) = turnOrder cs
   \<or> (list_all hasActed (turnOrder cs) \<and> turnOrder (finishAction a cs) = map cleared (turnOrder cs))"
  by (simp add: finishAction_def Let_def updUnit_def resetRound_frame allActed_def)

lemma attackAction_turnOrder: "turnOrder (attackAction now a t cs) = turnOrder cs"
  by (simp add: attackAction_def Let_def updUnit_def)

lemma attackAction_flags:
  "hasActed (units (attackAction now a t cs) x) = hasActed (units cs x)"
  "isDefending (units (attackAction now a t cs) x) = isDefending (units cs x)"
  by (simp_all add: attackAction_def Let_def updUnit_def)

lemma applyAction_turnOrder: "turnOrder (applyAction now action a cs) = turnOrder cs"
  by (simp add: applyAction_def attackAction_turnOrder updUnit_def
           split: ActionType.splits option.splits)

lemma applyAction_hasActed:
  "hasActed (units (applyAction now action a cs) x) = hasActed (units cs x)"
  by (simp add: applyAction_def attackAction_flags updUnit_def
           split: ActionType.splits option.splits)

lemma applyAction_isDefending:
  "isDefending (units cs x) \<Longrightarrow> isDefending (units (applyAction now action a cs) x)"
  by (auto simp: applyAction_def attackAction_flags updUnit_def
           split: ActionType.splits option.splits)

lemma attackAction_effect:
  assumes "t \<in> set (attackerUnits cs) \<or> t \<in> set (defenderUnits cs)"
  shows "let damage = damageOf (units cs a) (units cs t);
             lost = \<lfloor>damage / maxHp (stats (UNIT_TEMPLATES (unit_type (units cs t))))\<rfloor>;
             dead = (max 0 (unit_count (units cs t) - lost) \<le> 0
                     \<or> hp (stats (units cs t)) - damage \<le> 0);
             cs' = attackAction now a t cs
         in hp (stats (units cs' t)) = hp (stats (units cs t)) - damage
          \<and> unit_count (units cs' t) = max 0 (unit_count (units cs t) - lost)
          \<and> combatLog cs' = combatLog cs @
               [\<lparr>log_turn = - 1,
                 message = (unit_name (units cs a), damage, unit_name (units cs t)),
                 timestamp = now\<rparr>]
          \<and> attackerUnits cs' =
               (if dead \<and> t \<in> set (attackerUnits cs) then remove1 t (attackerUnits cs)
                else attackerUnits cs)
          \<and> defenderUnits cs' =
               (if dead \<and> t \<notin> set (attackerUnits cs) then remove1 t (defenderUnits cs)
                else defenderUnits cs)"
  using assms
  by (auto simp: attackAction_def Let_def updUnit_def splice1_indexOf)

text \<open>
  C2. An attack by a source unit at \<open>a\<close> that has not acted, on a target found at \<open>t\<close>:
  the damage is \<open>max(1, attack \<times> count - defense)\<close>; the target's HP falls by the damage;
  its count becomes \<open>max(0, count - floor(damage / template maxHp))\<close>; the log gains one
  entry, with the two names and the damage, \<open>turn\<close> \<open>-1\<close> and the time of the call; and the
  target is taken out of its roster, once (\<open>remove1\<close>), exactly when its new count is at most
  \<open>0\<close> or its new HP is at most \<open>0\<close>, the other roster staying as it was.
\<close>

theorem attack_effect:
  assumes "combatState s = Some cs"
    and "findUnit cs (sourceUnit action) = Some a"
    and "\<not> hasActed (units cs a)"
    and "action_type action = act_attack"
    and "targetUnit action = Some tid" and "tid \<noteq> []"
    and "findUnit cs tid = Some t"
  shows "\<exists>cs'. combatState (executeCombatAction now action s) = Some cs' \<and>
     (let damage = max 1 (attack (stats (units cs a)) * of_int (unit_count (units cs a))
                          - defense (stats (units cs t)));
          lost = \<lfloor>damage / maxHp (stats (UNIT_TEMPLATES (unit_type (units cs t))))\<rfloor>;
          dead = (max 0 (unit_count (units cs t) - lost) \<le> 0
                  \<or> hp (stats (units cs t)) - damage \<le> 0)
      in hp (stats (units cs' t)) = hp (stats (units cs t)) - damage
       \<and> unit_count (units cs' t) = max 0 (unit_count (units cs t) - lost)
       \<and> (\<exists>e. combatLog cs' = combatLog cs @ [e]
               \<and> message e = (unit_name (units cs a), damage, unit_name (units cs t))
               \<and> log_turn e = - 1 \<and> timestamp e = now)
       \<and> attackerUnits cs' =
            (if dead \<and> t \<in> set (attackerUnits cs) then remove1 t (attackerUnits cs)
             else attackerUnits cs)
       \<and> defenderUnits cs' =
            (if dead \<and> t \<notin> set (attackerUnits cs) then remove1 t (defenderUnits cs)
             else defenderUnits cs))"
proof -
  from assms(7) have "t \<in> set (attackerUnits cs @ defenderUnits cs)"
    unfolding findUnit_def by (rule find_SomeD[THEN conjunct1])
  then have mem: "t \<in> set (attackerUnits cs) \<or> t \<in> set (defenderUnits cs)" by simp
  have ap: "applyAction now action a cs = attackAction now a t cs"
    using assms by (simp add: applyAction_def)
  have ex: "executeCombatAction now action s
        = s\<lparr>combatState := Some (finishAction a (attackAction now a t cs))\<rparr>"
    using assms by (simp add: executeCombatAction_def ap)
  show ?thesis
    using attackAction_effect[OF mem, of a now]
    by (simp add: ex Let_def finishAction_frame finishAction_stats damageOf_def)
qed

theorem attack_effect_witness:
  "combatState demoBattle = Some demoCombat
   \<and> findUnit demoCombat (sourceUnit (attackOn ''unit_a'' ''unit_c'')) = Some 0
   \<and> \<not> hasActed (units demoCombat 0)
   \<and> findUnit demoCombat ''unit_c'' = Some 2
   \<and> (\<exists>cs'. combatState (executeCombatAction 7 (attackOn ''unit_a'' ''unit_c'') demoBattle)
              = Some cs'
        \<and> hp (stats (units cs' 2)) = - 95 \<and> unit_count (units cs' 2) = 0
        \<and> map log_turn (combatLog cs') = [- 1]
        \<and> attackerUnits cs' = [0] \<and> defenderUnits cs' = [1])"
proof -
  have h1: "combatState demoBattle = Some demoCombat" by (simp add: demoBattle_def)
  have h2: "findUnit demoCombat (sourceUnit (attackOn ''unit_a'' ''unit_c'')) = Some 0"
    by (simp add: attackOn_def demo_find)
  have h3: "\<not> hasActed (units demoCombat 0)" by (simp add: demo_defs)
  have h4: "action_type (attackOn ''unit_a'' ''unit_c'') = act_attack"
    by (simp add: attackOn_def)
  have h5: "targetUnit (attackOn ''unit_a'' ''unit_c'') = Some ''unit_c''"
    by (simp add: attackOn_def)
  have h6: "''unit_c'' \<noteq> []" by simp
  have h7: "findUnit demoCombat ''unit_c'' = Some 2" by (rule demo_find)
  from attack_effect[OF h1 h2 h3 h4 h5 h6 h7, of 7] obtain cs' where
    e: "combatState (executeCombatAction 7 (attackOn ''unit_a'' ''unit_c'') demoBattle) = Some cs'"
    and p: "let damage = max 1 (attack (stats (units demoCombat 0))
                              * of_int (unit_count (units demoCombat 0))
                          - defense (stats (units demoCombat 2)));
          lost = \<lfloor>damage / maxHp (stats (UNIT_TEMPLATES (unit_type (units demoCombat 2))))\<rfloor>;
          dead = (max 0 (unit_count (units demoCombat 2) - lost) \<le> 0
                  \<or> hp (stats (units demoCombat 2)) - damage \<le> 0)
      in hp (stats (units cs' 2)) = hp (stats (units demoCombat 2)) - damage
       \<and> unit_count (units cs' 2) = max 0 (unit_count (units demoCombat 2) - lost)
       \<and> (\<exists>e. combatLog cs' = combatLog demoCombat @ [e]
               \<and> message e = (unit_name (units demoCombat 0), damage,
                               unit_name (units demoCombat 2))
               \<and> log_turn e = - 1 \<and> timestamp e = 7)
       \<and> attackerUnits cs' =
            (if dead \<and> 2 \<in> set (attackerUnits demoCombat)
             then remove1 2 (attackerUnits demoCombat) else attackerUnits demoCombat)
       \<and> defenderUnits cs' =
            (if dead \<and> 2 \<notin> set (attackerUnits demoCombat)
             then remove1 2 (defenderUnits demoCombat) else defenderUnits demoCombat)"
    by blast
  from p have q: "hp (stats (units cs' 2)) = - 95 \<and> unit_count (units cs' 2) = 0
        \<and> map log_turn (combatLog cs') = [- 1]
        \<and> attackerUnits cs' = [0] \<and> defenderUnits cs' = [1]"
    unfolding Let_def by (auto simp: demo_defs)
  from h1 h2 h3 h7 e q show ?thesis
    by (intro conjI exI[where x = cs']) simp_all
qed

text \<open>
  In a battle that \<open>startCombat\<close> has set up, no element of \<open>turnOrder\<close> is marked, and no
  action marks one: the flags in \<open>turnOrder\<close> are never cleared, because they are never set.
\<close>

lemma sort_key_all: "list_all P (sort_key f xs) = list_all P xs"
  by (simp add: list_all_iff)

lemma startCombat_unmarked:
  assumes "getHero s attackerId = Some h" and "getHero s defenderId = Some d"
  shows "\<exists>cs. combatState (startCombat attackerId (Inl defenderId) s) = Some cs \<and> unmarked cs"
  using assms
  by (auto simp: startCombat_def Let_def unmarked_def sort_key_all list_all_iff toCombatUnit_def
        Unit.defs CombatUnit.defs split_beta)

lemma executeCombatAction_unmarked:
  assumes "combatState s = Some cs" and "unmarked cs"
  shows "\<exists>cs'. combatState (executeCombatAction now action s) = Some cs'
           \<and> turnOrder cs' = turnOrder cs \<and> unmarked cs'"
proof (cases "turnOrder cs = []")
  case True
  with assms show ?thesis
    by (auto simp: executeCombatAction_def finishAction_def Let_def updUnit_def resetRound_def
          applyAction_turnOrder unmarked_def split: option.splits)
next
  case False
  then obtain u where "u \<in> set (turnOrder cs)" by (cases "turnOrder cs") auto
  with assms(2) have "\<not> list_all hasActed (turnOrder cs)"
    by (auto simp: unmarked_def list_all_iff)
  with assms show ?thesis
    by (auto simp: executeCombatAction_def finishAction_def Let_def updUnit_def allActed_def
          applyAction_turnOrder unmarked_def split: option.splits)
qed

text \<open>
  C9. \<open>executeCombatAction\<close> leaves the elements of \<open>turnOrder\<close> and their order as they
  are, up to the two flags of the round: an attack that takes a unit out of its roster
  takes nothing out of \<open>turnOrder\<close>. The flags in \<open>turnOrder\<close> are cleared only when every
  element of \<open>turnOrder\<close>, whether or not its unit is still in a roster, is marked as having
  acted: while one of them is not, \<open>turnOrder\<close> stays exactly as it is. No action clears
  \<open>hasActed\<close> or \<open>isDefending\<close> of a unit of a roster.
\<close>

theorem turnOrder_frame:
  "map_option (map cleared \<circ> turnOrder) (combatState (executeCombatAction now action s))
     = map_option (map cleared \<circ> turnOrder) (combatState s)
   \<and> (\<forall>cs. combatState s = Some cs \<longrightarrow>
        (\<exists>cs'. combatState (executeCombatAction now action s) = Some cs'
           \<and> ((\<exists>u \<in> set (turnOrder cs). \<not> hasActed u) \<longrightarrow> turnOrder cs' = turnOrder cs)
           \<and> (\<forall>x. (hasActed (units cs x) \<longrightarrow> hasActed (units cs' x))
                 \<and> (isDefending (units cs x) \<longrightarrow> isDefending (units cs' x)))))"
proof (intro conjI allI impI)
  show "map_option (map cleared \<circ> turnOrder) (combatState (executeCombatAction now action s))
     = map_option (map cleared \<circ> turnOrder) (combatState s)"
  proof (cases "combatState s")
    case None
    then show ?thesis by (simp add: executeCombatAction_def)
  next
    case (Some cs)
    show ?thesis
    proof (cases "findUnit cs (sourceUnit action)")
      case None
      with Some show ?thesis by (simp add: executeCombatAction_def)
    next
      case (Some a)
      from finishAction_turnOrder[of a "applyAction now action a cs"]
      have "map cleared (turnOrder (finishAction a (applyAction now action a cs)))
              = map cleared (turnOrder cs)"
        by (auto simp: applyAction_turnOrder cleared_idem)
      with Some \<open>combatState s = Some cs\<close> show ?thesis
        by (simp add: executeCombatAction_def)
    qed
  qed
next
  fix cs
  assume h: "combatState s = Some cs"
  show "\<exists>cs'. combatState (executeCombatAction now action s) = Some cs'
           \<and> ((\<exists>u \<in> set (turnOrder cs). \<not> hasActed u) \<longrightarrow> turnOrder cs' = turnOrder cs)
           \<and> (\<forall>x. (hasActed (units cs x) \<longrightarrow> hasActed (units cs' x))
                 \<and> (isDefending (units cs x) \<longrightarrow> isDefending (units cs' x)))"
  proof (cases "findUnit cs (sourceUnit action)")
    case None
    with h show ?thesis by (simp add: executeCombatAction_def)
  next
    case (Some a)
    show ?thesis
    proof (cases "hasActed (units cs a)")
      case True
      with h Some show ?thesis by (simp add: executeCombatAction_def)
    next
      case False
      let ?c1 = "applyAction now action a cs"
      let ?cs' = "finishAction a ?c1"
      have ex: "combatState (executeCombatAction now action s) = Some ?cs'"
        using h Some False by (simp add: executeCombatAction_def)
      have p1: "(\<exists>u \<in> set (turnOrder cs). \<not> hasActed u) \<longrightarrow> turnOrder ?cs' = turnOrder cs"
        using finishAction_turnOrder[of a ?c1]
        by (auto simp: applyAction_turnOrder list_all_iff)
      have p2: "\<forall>x. (hasActed (units cs x) \<longrightarrow> hasActed (units ?cs' x))
                 \<and> (isDefending (units cs x) \<longrightarrow> isDefending (units ?cs' x))"
        by (simp add: finishAction_units applyAction_hasActed applyAction_isDefending)
      from ex p1 p2 show ?thesis by blast
    qed
  qed
qed

theorem turnOrder_frame_witness:
  "combatState demoBattle = Some demoCombat
   \<and> (\<exists>u \<in> set (turnOrder demoCombat). \<not> hasActed u)
   \<and> (\<exists>cs'. combatState (executeCombatAction 7 (attackOn ''unit_a'' ''unit_c'') demoBattle)
              = Some cs'
        \<and> defenderUnits cs' = [1]
        \<and> map unit_id (turnOrder cs') = [''unit_b'', ''unit_c'', ''unit_a'']
        \<and> turnOrder cs' = turnOrder demoCombat)"
proof -
  let ?act = "attackOn ''unit_a'' ''unit_c''"
  have h1: "combatState demoBattle = Some demoCombat" by (simp add: demoBattle_def)
  have h4: "\<exists>u \<in> set (turnOrder demoCombat). \<not> hasActed u"
    by (simp add: demo_defs)
  from turnOrder_frame[of 7 ?act demoBattle] h1 h4
  obtain cs' where e: "combatState (executeCombatAction 7 ?act demoBattle) = Some cs'"
    and t: "turnOrder cs' = turnOrder demoCombat"
    by blast
  have d: "map_option defenderUnits (combatState (executeCombatAction 7 ?act demoBattle))
             = Some [1]"
    by (simp add: executeCombatAction_def h1 demo_find finishAction_frame applyAction_def
          attackOn_def attackAction_def Let_def updUnit_def damageOf_def
          splice1_def indexOf_def)
       (simp add: demo_defs)
  have a: "defenderUnits cs' = [1]
        \<and> map unit_id (turnOrder cs') = [''unit_b'', ''unit_c'', ''unit_a'']"
    using t d by (simp add: e) (simp add: demo_defs)
  from h1 h4 e a t show ?thesis
    by (intro conjI exI[where x = cs']) simp_all
qed

text \<open>
  The example battle after every unit has acted: the three units of the rosters are marked,
  no element of \<open>turnOrder\<close> is, and a further action of any of them changes nothing.
\<close>

lemma demoRoundEnd_stuck:
  "\<exists>cs. combatState demoRoundEnd = Some cs
     \<and> hasActed (units cs 0) \<and> hasActed (units cs 1) \<and> hasActed (units cs 2)
     \<and> attackerUnits cs = [0] \<and> defenderUnits cs = [1, 2]
     \<and> turnOrder cs = turnOrder demoCombat
     \<and> executeCombatAction 8 (attackOn ''unit_a'' ''unit_c'') demoRoundEnd = demoRoundEnd"
  by (simp add: demoRoundEnd_def executeCombatAction_def findUnit_def applyAction_def
        finishAction_def allActed_def updUnit_def jsRem_def Let_def demo_defs)

subsection \<open>Movement\<close>

lemma followPath_snoc:
  "followPath s p0 path = Some (p, c) \<Longrightarrow> adjacent p q \<Longrightarrow> enterCost s q = Some k
   \<Longrightarrow> followPath s p0 (path @ [q]) = Some (q, c + k)"
proof (induction path arbitrary: p0 c)
  case Nil
  then show ?case by simp
next
  case (Cons a path)
  from Cons.prems(1) obtain ka c' where
    adj: "adjacent p0 a" and ka: "enterCost s a = Some ka"
    and sub: "followPath s a path = Some (p, c')" and c: "c = ka + c'"
    by (auto split: if_splits option.splits)
  from Cons.IH[OF sub Cons.prems(2,3)] show ?case
    using adj ka c by simp
qed

lemma pushNeighbor_eq:
  "pushNeighbor s mp c nb =
     (case enterCost s nb of
        None \<Rightarrow> []
      | Some k \<Rightarrow> if c + k \<le> mp then [(nb, c + k)] else [])"
  by (simp add: pushNeighbor_def enterCost_def Let_def split: option.splits Cost.splits)

lemma enterCost_passable:
  "enterCost s p = Some k \<Longrightarrow> \<exists>t. getTileAt s p = Some t \<and> isPassable t \<and> movementCost t = Finite k"
  by (auto simp: enterCost_def split: option.splits if_splits Cost.splits)

lemma neighbors_adjacent: "q \<in> set (neighbors p) \<Longrightarrow> adjacent p q"
  by (auto simp: neighbors_def adjacent_def)

lemma pushed_sound:
  assumes "followPath s origin path = Some (p, c)"
    and "e \<in> set (concat (map (pushNeighbor s mp c) (neighbors p)))"
  shows "(\<exists>path'. followPath s origin path' = Some (fst e, snd e))
         \<and> (\<exists>t. getTileAt s (fst e) = Some t \<and> isPassable t) \<and> snd e \<le> mp"
proof -
  from assms(2) obtain nb where nb: "nb \<in> set (neighbors p)" and e: "e \<in> set (pushNeighbor s mp c nb)"
    by auto
  from e obtain k where k: "enterCost s nb = Some k" and le: "c + k \<le> mp" and ee: "e = (nb, c + k)"
    unfolding pushNeighbor_eq by (cases "enterCost s nb") (auto split: if_splits)
  from followPath_snoc[OF assms(1) neighbors_adjacent[OF nb] k]
  have "followPath s origin (path @ [nb]) = Some (nb, c + k)" .
  then show ?thesis using ee le enterCost_passable[OF k] by auto
qed

lemma rangeLoop_sound:
  assumes "\<forall>e \<in> set queue. (\<exists>path. followPath s origin path = Some (fst e, snd e))
                           \<and> (fst e = origin \<or> (\<exists>t. getTileAt s (fst e) = Some t \<and> isPassable t))"
    and "\<forall>p \<in> set found. p \<noteq> origin \<and> (\<exists>t. getTileAt s p = Some t \<and> isPassable t)
                           \<and> pathTo s origin mp p"
  shows "\<forall>p \<in> set (rangeLoop s origin mp queue visited found).
           p \<noteq> origin \<and> (\<exists>t. getTileAt s p = Some t \<and> isPassable t) \<and> pathTo s origin mp p"
  using assms
proof (induction s origin mp queue visited found rule: rangeLoop.induct)
  case (1 s origin mp visited found)
  then show ?case by (simp add: rangeLoop.simps)
next
  case (2 s origin mp current rest visited found)
  let ?I = "\<lambda>e. (\<exists>path. followPath s origin path = Some (fst e, snd e))
                           \<and> (fst e = origin \<or> (\<exists>t. getTileAt s (fst e) = Some t \<and> isPassable t))"
  let ?G = "\<lambda>p. p \<noteq> origin \<and> (\<exists>t. getTileAt s p = Some t \<and> isPassable t) \<and> pathTo s origin mp p"
  from "2.prems"(1) have cur: "?I current" and rest: "\<forall>e \<in> set rest. ?I e" by auto
  show ?case
  proof (cases "fst current \<in> set visited")
    case True
    have "rangeLoop s origin mp (current # rest) visited found
            = rangeLoop s origin mp rest visited found"
      by (subst rangeLoop.simps(2)) (simp only: True if_True)
    with "2.IH"(1)[OF True rest "2.prems"(2)] show ?thesis by (simp only:)
  next
    case nv: False
    show ?thesis
    proof (cases "snd current \<le> mp")
      case le: True
      from cur obtain path where path: "followPath s origin path = Some (fst current, snd current)"
        by blast
      have q: "\<forall>e \<in> set (rest @ concat (map (pushNeighbor s mp (snd current)) (neighbors (fst current)))). ?I e"
      proof
        fix e
        assume "e \<in> set (rest @ concat (map (pushNeighbor s mp (snd current)) (neighbors (fst current))))"
        then consider "e \<in> set rest"
          | "e \<in> set (concat (map (pushNeighbor s mp (snd current)) (neighbors (fst current))))"
          by auto
        then show "?I e"
        proof cases
          case 1
          with rest show ?thesis by blast
        next
          case 2
          from pushed_sound[OF path 2] show ?thesis by blast
        qed
      qed
      have pt: "pathTo s origin mp (fst current)"
        unfolding pathTo_def using path le
        by (intro exI[of _ path] exI[of _ "snd current"]) simp
      have r: "\<forall>p \<in> set (if fst current \<noteq> origin then found @ [fst current] else found). ?G p"
        using "2.prems"(2) cur pt by auto
      have "rangeLoop s origin mp (current # rest) visited found
            = rangeLoop s origin mp
                (rest @ concat (map (pushNeighbor s mp (snd current)) (neighbors (fst current))))
                (fst current # visited)
                (if fst current \<noteq> origin then found @ [fst current] else found)"
        by (subst rangeLoop.simps(2)) (simp only: nv le if_True if_False)
      with "2.IH"(2)[OF nv le q r] show ?thesis by (simp only:)
    next
      case gt: False
      have "rangeLoop s origin mp (current # rest) visited found
            = rangeLoop s origin mp rest (fst current # visited) found"
        by (subst rangeLoop.simps(2)) (simp only: nv gt if_True if_False)
      with "2.IH"(3)[OF nv gt rest "2.prems"(2)] show ?thesis by (simp only:)
    qed
  qed
qed

lemma getMovementRange_sound:
  assumes "getHero s heroId = Some h" and "p \<in> set (getMovementRange s heroId)"
  shows "p \<noteq> position h
       \<and> (\<exists>t. getTileAt s p = Some t \<and> isPassable t)
       \<and> (\<exists>path c. followPath s (position h) path = Some (p, c) \<and> c \<le> movementPoints h)"
proof -
  have "\<forall>p \<in> set (rangeLoop s (position h) (movementPoints h) [(position h, 0)] [] []).
           p \<noteq> position h \<and> (\<exists>t. getTileAt s p = Some t \<and> isPassable t)
           \<and> pathTo s (position h) (movementPoints h) p"
  proof (rule rangeLoop_sound)
    have "followPath s (position h) [] = Some (position h, 0)" by simp
    then have "\<exists>path. followPath s (position h) path = Some (position h, 0)" by (rule exI)
    then show "\<forall>e \<in> set [(position h, 0)].
        (\<exists>path. followPath s (position h) path = Some (fst e, snd e))
        \<and> (fst e = position h \<or> (\<exists>t. getTileAt s (fst e) = Some t \<and> isPassable t))"
      by simp
    show "\<forall>p \<in> set []. p \<noteq> position h \<and> (\<exists>t. getTileAt s p = Some t \<and> isPassable t)
        \<and> pathTo s (position h) (movementPoints h) p"
      by simp
  qed
  then show ?thesis using assms by (simp add: getMovementRange_def pathTo_def)
qed

lemma followPath_last_cost:
  assumes "costsNonneg s"
  shows "followPath s p0 path = Some (p, c) \<Longrightarrow> path \<noteq> []
         \<Longrightarrow> \<exists>k. enterCost s p = Some k \<and> k \<le> c \<and> 0 \<le> c"
proof (induction path arbitrary: p0 c)
  case Nil
  then show ?case by simp
next
  case (Cons a path)
  from Cons.prems(1) obtain ka c' where
    ka: "enterCost s a = Some ka"
    and sub: "followPath s a path = Some (p, c')" and c: "c = ka + c'"
    by (auto split: if_splits option.splits)
  from assms ka have k0: "0 \<le> ka" unfolding costsNonneg_def by blast
  show ?case
  proof (cases "path = []")
    case True
    with sub have "p = a" "c' = 0" by simp_all
    then show ?thesis using ka c k0 by simp
  next
    case False
    from Cons.IH[OF sub False] obtain k where "enterCost s p = Some k" "k \<le> c'" "0 \<le> c'"
      by blast
    then show ?thesis using c k0 by auto
  qed
qed

lemma update_first_append:
  "find P xs \<noteq> None \<Longrightarrow> update_first P g (xs @ ys) = update_first P g xs @ ys"
  by (induction xs) auto

lemma update_first_append2:
  "find P xs = None \<Longrightarrow> update_first P g (xs @ ys) = xs @ update_first P g ys"
  by (induction xs) (auto split: if_splits)

lemma find_append: "find P (xs @ ys) = (case find P xs of None \<Rightarrow> find P ys | Some x \<Rightarrow> Some x)"
  by (induction xs) auto

lemma roster_locate:
  assumes "rosterConsistent fs"
    and "find P (concat (map heroes fs)) = Some h"
  shows "(\<exists>F. find (\<lambda>f. faction_id f = factionId h) fs = Some F \<and> find P (heroes F) = Some h)
       \<and> concat (map heroes (update_first (\<lambda>f. faction_id f = factionId h)
                     (\<lambda>f. f\<lparr>heroes := update_first P g (heroes f)\<rparr>) fs))
           = update_first P g (concat (map heroes fs))"
  using assms
proof (induction fs)
  case Nil
  then show ?case by simp
next
  case (Cons f fs)
  show ?case
  proof (cases "find P (heroes f)")
    case (Some h')
    with Cons.prems(2) have hh: "h' = h" by (simp add: find_append)
    from Some hh have "h \<in> set (heroes f)" using find_SomeD by fastforce
    with Cons.prems(1) have fid: "factionId h = faction_id f"
      by (auto simp: rosterConsistent_def)
    show ?thesis using Some hh fid by (simp add: update_first_append)
  next
    case None
    with Cons.prems(2) have tl: "find P (concat (map heroes fs)) = Some h"
      by (simp add: find_append)
    from Cons.prems(1) have rc: "rosterConsistent fs" by (auto simp: rosterConsistent_def)
    from tl have "h \<in> set (concat (map heroes fs))" using find_SomeD by fastforce
    then obtain f' where f': "f' \<in> set fs" "h \<in> set (heroes f')" by auto
    with rc have "factionId h = faction_id f'" by (auto simp: rosterConsistent_def)
    with Cons.prems(1) f' have ne: "faction_id f \<noteq> factionId h"
      by (auto simp: rosterConsistent_def)
    from Cons.IH[OF rc tl] show ?thesis using None ne by (simp add: update_first_append2)
  qed
qed

lemma find_update_first_same:
  "(\<And>x. P (g x) = P x) \<Longrightarrow> find P (update_first P g xs) = map_option g (find P xs)"
  by (induction xs) auto

lemma find_update_first_other:
  "(\<And>x. Q x \<Longrightarrow> \<not> P x) \<Longrightarrow> (\<And>x. Q (g x) = Q x)
   \<Longrightarrow> find Q (update_first P g xs) = find Q xs"
  by (induction xs) auto

lemma canMoveTo_iff: "canMoveTo s heroId pos \<longleftrightarrow> pos \<in> set (getMovementRange s heroId)"
  by (auto simp: canMoveTo_def list_ex_iff prod_eq_iff)

lemma moveHero_no_hero: "getHero s heroId = None \<Longrightarrow> moveHero heroId target s = Inr (False, s)"
  by (simp add: moveHero_def)

lemma moveHeroSet_effect:
  assumes rc: "rosterConsistent (factions s)"
    and h: "getHero s heroId = Some h"
    and k: "movementCost t = Finite k" and le: "k \<le> movementPoints h"
  shows "case pointOfInterest t of
           None \<Rightarrow>
             (\<exists>s'. moveHeroSet h heroId target t s = Inr s'
                \<and> getHero s' heroId
                     = Some (h\<lparr>position := target, movementPoints := movementPoints h - k\<rparr>)
                \<and> (\<forall>other. other \<noteq> heroId \<longrightarrow> getHero s' other = getHero s other)
                \<and> worldMap s' = worldMap s \<and> gamePhase s' = gamePhase s)
         | Some a \<Rightarrow> moveHeroSet h heroId target t s = Inl TypeError"
proof -
  let ?P = "\<lambda>x. hero_id x = heroId"
  let ?g = "\<lambda>x. x\<lparr>position := target, movementPoints := movementPoints x - k\<rparr>"
  let ?fs' = "update_first (\<lambda>f. faction_id f = factionId h)
                (\<lambda>f. f\<lparr>heroes := update_first ?P ?g (heroes f)\<rparr>) (factions s)"
  from h have fl: "find ?P (concat (map heroes (factions s))) = Some h"
    by (simp add: getHero_def)
  from roster_locate[OF rc fl, of ?g] obtain F where
    F: "find (\<lambda>f. faction_id f = factionId h) (factions s) = Some F"
    and hF: "find ?P (heroes F) = Some h"
    and flat: "concat (map heroes ?fs') = update_first ?P ?g (concat (map heroes (factions s)))"
    by blast
  have g1: "find ?P (concat (map heroes ?fs')) = Some (?g h)"
    unfolding flat by (subst find_update_first_same) (simp_all add: fl)
  have g2: "find (\<lambda>x. hero_id x = other) (concat (map heroes ?fs'))
              = find (\<lambda>x. hero_id x = other) (concat (map heroes (factions s)))"
    if "other \<noteq> heroId" for other
    unfolding flat using that by (intro find_update_first_other) auto
  show ?thesis
    using F hF k le g1 g2
    by (cases "pointOfInterest t")
       (simp_all add: moveHeroSet_def getHero_def Let_def)
qed

text \<open>
  C3. In a state whose enterable tiles have no negative cost and whose roster is consistent
  (every state reached from \<open>initGame\<close> is one, see \<open>reachable_wellformed\<close>), for a hero
  \<open>h\<close> found under \<open>heroId\<close>: \<open>moveHero\<close> returns \<open>false\<close> and the state
  unchanged when the target is not in the hero's movement range. When it is, and the
  target's tile carries no point of interest, \<open>moveHero\<close> returns \<open>true\<close>, the hero is at the
  target with its movement points less the movement cost \<open>k\<close> of the target's tile, and
  every other hero, the map and the phase are as before. When the target's tile carries a
  point of interest, discovered or not, town or not, \<open>moveHero\<close> throws a \<open>TypeError\<close> and
  the state stays as it was: the hero is not moved, nothing is marked discovered, the phase
  does not become \<open>town\<close>.
\<close>

theorem moveHero_effect:
  assumes "costsNonneg s" and "rosterConsistent (factions s)" and "getHero s heroId = Some h"
  shows "(target \<notin> set (getMovementRange s heroId)
            \<longrightarrow> moveHero heroId target s = Inr (False, s))
   \<and> (target \<in> set (getMovementRange s heroId) \<longrightarrow>
        (\<exists>t k. getTileAt s target = Some t \<and> movementCost t = Finite k
            \<and> (case pointOfInterest t of
                 None \<Rightarrow>
                   (\<exists>s'. moveHero heroId target s = Inr (True, s')
                      \<and> getHero s' heroId
                           = Some (h\<lparr>position := target, movementPoints := movementPoints h - k\<rparr>)
                      \<and> (\<forall>other. other \<noteq> heroId \<longrightarrow> getHero s' other = getHero s other)
                      \<and> worldMap s' = worldMap s \<and> gamePhase s' = gamePhase s)
               | Some a \<Rightarrow> moveHero heroId target s = Inl TypeError)))"
proof (intro conjI impI)
  assume "target \<notin> set (getMovementRange s heroId)"
  then show "moveHero heroId target s = Inr (False, s)"
    using assms(3) by (simp add: moveHero_def canMoveTo_iff)
next
  assume inr: "target \<in> set (getMovementRange s heroId)"
  from getMovementRange_sound[OF assms(3) inr] obtain path c where
    ne: "target \<noteq> position h"
    and path: "followPath s (position h) path = Some (target, c)" and c: "c \<le> movementPoints h"
    by blast
  from ne path have "path \<noteq> []" by auto
  from followPath_last_cost[OF assms(1) path this] obtain k where
    k: "enterCost s target = Some k" and kc: "k \<le> c" by blast
  from enterCost_passable[OF k] obtain t where
    t: "getTileAt s target = Some t" and tk: "movementCost t = Finite k" by blast
  from kc c have le: "k \<le> movementPoints h" by simp
  have mv: "moveHero heroId target s =
              (case moveHeroSet h heroId target t s of Inl e \<Rightarrow> Inl e | Inr s' \<Rightarrow> Inr (True, s'))"
    using assms(3) inr t by (simp add: moveHero_def canMoveTo_iff)
  have "case pointOfInterest t of
                 None \<Rightarrow>
                   (\<exists>s'. moveHero heroId target s = Inr (True, s')
                      \<and> getHero s' heroId
                           = Some (h\<lparr>position := target, movementPoints := movementPoints h - k\<rparr>)
                      \<and> (\<forall>other. other \<noteq> heroId \<longrightarrow> getHero s' other = getHero s other)
                      \<and> worldMap s' = worldMap s \<and> gamePhase s' = gamePhase s)
               | Some a \<Rightarrow> moveHero heroId target s = Inl TypeError"
    using moveHeroSet_effect[OF assms(2,3) tk le, of target]
    by (cases "pointOfInterest t") (auto simp: mv)
  with t tk
  show "\<exists>t k. getTileAt s target = Some t \<and> movementCost t = Finite k
            \<and> (case pointOfInterest t of
                 None \<Rightarrow>
                   (\<exists>s'. moveHero heroId target s = Inr (True, s')
                      \<and> getHero s' heroId
                           = Some (h\<lparr>position := target, movementPoints := movementPoints h - k\<rparr>)
                      \<and> (\<forall>other. other \<noteq> heroId \<longrightarrow> getHero s' other = getHero s other)
                      \<and> worldMap s' = worldMap s \<and> gamePhase s' = gamePhase s)
               | Some a \<Rightarrow> moveHero heroId target s = Inl TypeError)"
    by blast
qed

lemma getTileAt_mem:
  "getTileAt s p = Some t \<Longrightarrow> \<exists>row \<in> set (tiles (worldMap s)). t \<in> set row"
  by (auto simp: getTileAt_def Let_def split: if_splits intro!: bexI[of _ "tiles (worldMap s) ! nat (snd p)"])

lemma costsNonneg_tiles:
  assumes "\<forall>row \<in> set (tiles (worldMap s)). \<forall>t \<in> set row.
             \<forall>k. isPassable t \<and> movementCost t = Finite k \<longrightarrow> 0 \<le> k"
  shows "costsNonneg s"
  unfolding costsNonneg_def
proof (intro allI impI)
  fix p k
  assume "enterCost s p = Some k"
  from enterCost_passable[OF this] obtain t where
    t: "getTileAt s p = Some t" "isPassable t" "movementCost t = Finite k" by blast
  from getTileAt_mem[OF t(1)] assms t(2,3) show "0 \<le> k" by blast
qed

lemma demo_range: "getMovementRange demoState ''hero_a'' = [(1, 0), (0, 1), (1, 1)]"
  by code_simp

lemma demo_hero: "getHero demoState ''hero_a''
   = Some (demoHero ''hero_a'' player (0, 0) 2 [demoUnit warrior ''unit_a'' 10])"
  by (simp add: getHero_def demo_defs)

lemma demo_wf: "costsNonneg demoState" "rosterConsistent (factions demoState)"
proof -
  show "costsNonneg demoState"
    by (rule costsNonneg_tiles) (simp add: demo_defs)
  show "rosterConsistent (factions demoState)"
    by (simp add: rosterConsistent_def demo_defs)
qed

text \<open>
  C4. A position \<open>p\<close> that \<open>getMovementRange\<close> returns for a hero \<open>h\<close> is not the hero's
  position, its tile is passable, and some path of adjacent passable tiles leads from the
  hero's position to \<open>p\<close> with the costs of the tiles entered, fractions included, summing
  to at most the hero's movement points.
\<close>

theorem movement_range_legal:
  assumes "getHero s heroId = Some h" and "p \<in> set (getMovementRange s heroId)"
  shows "p \<noteq> position h
       \<and> (\<exists>t. getTileAt s p = Some t \<and> isPassable t)
       \<and> (\<exists>path c. followPath s (position h) path = Some (p, c) \<and> c \<le> movementPoints h)"
  using getMovementRange_sound[OF assms] .

theorem movement_range_legal_witness:
  "getHero demoState ''hero_a''
     = Some (demoHero ''hero_a'' player (0, 0) 2 [demoUnit warrior ''unit_a'' 10])
   \<and> (1, 1) \<in> set (getMovementRange demoState ''hero_a'')
   \<and> (1, 1) \<noteq> position (demoHero ''hero_a'' player (0, 0) 2 [demoUnit warrior ''unit_a'' 10])
   \<and> (\<exists>t. getTileAt demoState (1, 1) = Some t \<and> isPassable t)
   \<and> (\<exists>path c. followPath demoState (0, 0) path = Some ((1, 1), c) \<and> c \<le> 2)"
proof -
  have h2: "(1, 1) \<in> set (getMovementRange demoState ''hero_a'')"
    by (simp add: demo_range)
  from movement_range_legal[OF demo_hero h2] demo_hero h2
  show ?thesis by (simp add: demoHero_def)
qed

theorem moveHero_effect_witness:
  "costsNonneg demoState \<and> rosterConsistent (factions demoState)
   \<and> getHero demoState ''hero_a''
       = Some (demoHero ''hero_a'' player (0, 0) 2 [demoUnit warrior ''unit_a'' 10])
   \<and> (5, 5) \<notin> set (getMovementRange demoState ''hero_a'')
   \<and> moveHero ''hero_a'' (5, 5) demoState = Inr (False, demoState)
   \<and> (1, 0) \<in> set (getMovementRange demoState ''hero_a'')
   \<and> (\<exists>s'. moveHero ''hero_a'' (1, 0) demoState = Inr (True, s')
         \<and> getHero s' ''hero_a''
             = Some (demoHero ''hero_a'' player (1, 0) (3 / 2) [demoUnit warrior ''unit_a'' 10])
         \<and> getHero s' ''hero_b'' = getHero demoState ''hero_b''
         \<and> gamePhase s' = phase_world_map)
   \<and> (1, 1) \<in> set (getMovementRange demoState ''hero_a'')
   \<and> getTileAt demoState (1, 1) = Some (demoTile (1, 1) grass (Some 0))
   \<and> poi_type (poiStore (worldMap demoState) 0) = poi_town
   \<and> \<not> isDiscovered (poiStore (worldMap demoState) 0)
   \<and> moveHero ''hero_a'' (1, 1) demoState = Inl TypeError"
proof -
  let ?H = "demoHero ''hero_a'' player (0, 0) 2 [demoUnit warrior ''unit_a'' 10]"
  have n: "(5, 5) \<notin> set (getMovementRange demoState ''hero_a'')" by (simp add: demo_range)
  have r: "(1, 0) \<in> set (getMovementRange demoState ''hero_a'')" by (simp add: demo_range)
  have y: "(1, 1) \<in> set (getMovementRange demoState ''hero_a'')" by (simp add: demo_range)
  have road: "getTileAt demoState (1, 0) = Some (demoTile (1, 0) road None)"
    by (simp add: getTileAt_def demo_defs)
  have tile: "getTileAt demoState (1, 1) = Some (demoTile (1, 1) grass (Some 0))"
    by (simp add: getTileAt_def demo_defs)
  have town: "poi_type (poiStore (worldMap demoState) 0) = poi_town"
    "\<not> isDiscovered (poiStore (worldMap demoState) 0)"
    by (simp_all add: demo_defs)
  from moveHero_effect[OF demo_wf demo_hero, of "(5, 5)"] n
  have a: "moveHero ''hero_a'' (5, 5) demoState = Inr (False, demoState)" by blast
  from moveHero_effect[OF demo_wf demo_hero, of "(1, 0)"] r
  obtain t k where t: "getTileAt demoState (1, 0) = Some t" and k: "movementCost t = Finite k"
    and w: "case pointOfInterest t of
                 None \<Rightarrow>
                   (\<exists>s'. moveHero ''hero_a'' (1, 0) demoState = Inr (True, s')
                      \<and> getHero s' ''hero_a''
                           = Some (?H\<lparr>position := (1, 0), movementPoints := movementPoints ?H - k\<rparr>)
                      \<and> (\<forall>other. other \<noteq> ''hero_a'' \<longrightarrow> getHero s' other = getHero demoState other)
                      \<and> worldMap s' = worldMap demoState \<and> gamePhase s' = gamePhase demoState)
               | Some a \<Rightarrow> moveHero ''hero_a'' (1, 0) demoState = Inl TypeError"
    by blast
  from t road have teq: "t = demoTile (1, 0) road None" by simp
  from k teq have keq: "k = 1 / 2" by (simp add: demoTile_def)
  from w teq obtain s' where m: "moveHero ''hero_a'' (1, 0) demoState = Inr (True, s')"
    and g: "getHero s' ''hero_a''
              = Some (?H\<lparr>position := (1, 0), movementPoints := movementPoints ?H - k\<rparr>)"
    and o: "\<forall>other. other \<noteq> ''hero_a'' \<longrightarrow> getHero s' other = getHero demoState other"
    and ph: "gamePhase s' = gamePhase demoState"
    by (auto simp: demoTile_def)
  from g keq have g': "getHero s' ''hero_a''
             = Some (demoHero ''hero_a'' player (1, 0) (3 / 2) [demoUnit warrior ''unit_a'' 10])"
    by (simp add: demoHero_def)
  from o have o': "getHero s' ''hero_b'' = getHero demoState ''hero_b''" by simp
  from ph have ph': "gamePhase s' = phase_world_map" by (simp add: demoState_def)
  have part: "\<exists>s'. moveHero ''hero_a'' (1, 0) demoState = Inr (True, s')
         \<and> getHero s' ''hero_a''
             = Some (demoHero ''hero_a'' player (1, 0) (3 / 2) [demoUnit warrior ''unit_a'' 10])
         \<and> getHero s' ''hero_b'' = getHero demoState ''hero_b''
         \<and> gamePhase s' = phase_world_map"
    using m g' o' ph' by (intro exI[where x = s'] conjI) simp_all
  from moveHero_effect[OF demo_wf demo_hero, of "(1, 1)"] y
  obtain t2 k2 where t2: "getTileAt demoState (1, 1) = Some t2"
    and w2: "case pointOfInterest t2 of
                 None \<Rightarrow>
                   (\<exists>s'. moveHero ''hero_a'' (1, 1) demoState = Inr (True, s')
                      \<and> getHero s' ''hero_a''
                           = Some (?H\<lparr>position := (1, 1), movementPoints := movementPoints ?H - k2\<rparr>)
                      \<and> (\<forall>other. other \<noteq> ''hero_a'' \<longrightarrow> getHero s' other = getHero demoState other)
                      \<and> worldMap s' = worldMap demoState \<and> gamePhase s' = gamePhase demoState)
               | Some a \<Rightarrow> moveHero ''hero_a'' (1, 1) demoState = Inl TypeError"
    by blast
  from t2 tile have "t2 = demoTile (1, 1) grass (Some 0)" by simp
  with w2 have thr: "moveHero ''hero_a'' (1, 1) demoState = Inl TypeError"
    by (simp add: demoTile_def)
  show ?thesis
    using demo_wf demo_hero n a r part y tile town thr by (intro conjI) assumption+
qed

subsection \<open>World generation\<close>

lemma draw_bounds: "0 \<le> draw_value d \<and> draw_value d < 1"
  using draw_value[of d] by simp

lemma randomInt_range:
  assumes "lo < hi"
  shows "lo \<le> fst (randomInt lo hi rng) \<and> fst (randomInt lo hi rng) < hi"
proof -
  let ?r = "draw_value (stream rng (calls rng))"
  have b: "0 \<le> ?r" "?r < 1" using draw_bounds by auto
  have pos: "0 < (of_int (hi - lo) :: rat)" using assms by simp
  have "0 \<le> ?r * of_int (hi - lo)" using b(1) pos by simp
  then have lo0: "0 \<le> \<lfloor>?r * of_int (hi - lo)\<rfloor>" by simp
  have "?r * of_int (hi - lo) < of_int (hi - lo)" using b(2) pos by simp
  then have hi0: "\<lfloor>?r * of_int (hi - lo)\<rfloor> < hi - lo" by (simp add: floor_less_iff)
  show ?thesis using lo0 hi0 by (simp add: randomInt_def random_def Let_def)
qed

lemma shuffleLoop_set:
  "k < length xs \<Longrightarrow> set (fst (shuffleLoop k xs rng)) = set xs
                     \<and> length (fst (shuffleLoop k xs rng)) = length xs"
proof (induction k arbitrary: xs rng)
  case 0
  then show ?case by simp
next
  case (Suc k)
  obtain j rng' where r: "randomInt 0 (int (Suc k) + 1) rng = (j, rng')" by (cases "randomInt 0 (int (Suc k) + 1) rng")
  from randomInt_range[of 0 "int (Suc k) + 1" rng] r have j: "0 \<le> j" "j < int (Suc k) + 1" by auto
  then have jl: "nat j < length xs" using Suc.prems by linarith
  have sw: "set (swap (Suc k) (nat j) xs) = set xs" "length (swap (Suc k) (nat j) xs) = length xs"
    using Suc.prems jl by (simp_all add: swap_def set_swap)
  from Suc.IH[of "swap (Suc k) (nat j) xs" rng'] sw Suc.prems
  show ?case using r by simp
qed

lemma shuffle_set: "set (fst (shuffle xs rng)) = set xs"
proof (cases "xs = []")
  case True
  then show ?thesis by (simp add: shuffle_def)
next
  case False
  then have "length xs - 1 < length xs" by simp
  from shuffleLoop_set[OF this] show ?thesis by (simp add: shuffle_def)
qed

lemma those_concat_subset:
  "those (map f xs) = Some ys \<Longrightarrow> (\<And>x y. x \<in> set xs \<Longrightarrow> f x = Some y \<Longrightarrow> set y \<subseteq> A)
   \<Longrightarrow> set (concat ys) \<subseteq> A"
proof (induction xs arbitrary: ys)
  case Nil
  then show ?case by simp
next
  case (Cons x xs)
  from Cons.prems(1) obtain y ys' where y: "f x = Some y" and ys': "those (map f xs) = Some ys'"
    and ys: "ys = y # ys'"
    by (auto split: option.splits)
  from Cons.IH[OF ys'] Cons.prems(2) have "set (concat ys') \<subseteq> A" by auto
  moreover from Cons.prems(2)[OF _ y] have "set y \<subseteq> A" by simp
  ultimately show ?case using ys by simp
qed

lemma innerCells_inside:
  assumes "p \<in> set (innerCells ts)"
  shows "insideBorder (int (length (ts ! 0))) (int (length ts)) p"
  using assms by (auto simp: innerCells_def insideBorder_def)

lemma findValidPositions_inner:
  assumes "findValidPositions ts vt = Some ps"
  shows "set ps \<subseteq> set (innerCells ts)"
proof -
  from assms obtain ys where
    ys: "those (map (\<lambda>pos. case tileAt ts pos of
                            None \<Rightarrow> None
                          | Some t \<Rightarrow> Some (if terrain t \<in> set vt \<and> isPassable t
                                             then [pos] else []))
                   (innerCells ts)) = Some ys" and ps: "ps = concat ys"
    by (auto simp: findValidPositions_def)
  show ?thesis unfolding ps
    by (rule those_concat_subset[OF ys]) (auto split: option.splits if_splits)
qed

lemma createTown_fields:
  "poi_position (fst (createTown pos rng b)) = pos"
  "poi_type (fst (createTown pos rng b)) = poi_town"
  by (simp_all add: createTown_def Let_def split: prod.splits)

lemma createCamp_fields:
  "poi_position (fst (createCamp pos rng)) = pos"
  "poi_type (fst (createCamp pos rng)) = poi_enemy_camp"
  by (simp_all add: createCamp_def Let_def split: prod.splits)

lemma createEncounter_fields:
  "poi_position (fst (createEncounter pos rng)) = pos"
  "poi_type (fst (createEncounter pos rng)) = poi_neutral_encounter"
  by (simp_all add: createEncounter_def Let_def split: prod.splits)

lemma createNode_fields:
  "node_position (fst (createNode tile pos rng)) = pos"
  "isOwned (fst (createNode tile pos rng)) = False"
  by (simp_all add: createNode_def Let_def split: prod.splits)

lemma manhattan_sym: "manhattanDistance a b = manhattanDistance b a"
  by (simp add: manhattanDistance_def abs_minus_commute)

lemma spaced_snoc:
  assumes "spaced ts" and "\<forall>t \<in> set ts. 8 \<le> manhattanDistance (poi_position x) (poi_position t)"
  shows "spaced (ts @ [x])"
  unfolding spaced_def
proof (intro allI impI)
  fix i j
  assume i: "i < length (ts @ [x])" and j: "j < length (ts @ [x])" and ne: "i \<noteq> j"
  consider "i < length ts" "j < length ts" | "i = length ts" "j < length ts"
    | "i < length ts" "j = length ts"
    using i j ne by force
  then show "8 \<le> manhattanDistance (poi_position ((ts @ [x]) ! i)) (poi_position ((ts @ [x]) ! j))"
  proof cases
    case 1
    with assms(1) ne show ?thesis by (simp add: spaced_def nth_append)
  next
    case 2
    with assms(2) show ?thesis by (simp add: nth_append)
  next
    case 3
    with assms(2) show ?thesis by (simp add: nth_append manhattan_sym[of _ "poi_position x"])
  qed
qed

lemma townsLoop_props:
  assumes "spaced towns" and "\<forall>t \<in> set towns. poi_type t = poi_town \<and> poi_position t \<in> A"
    and "set ps \<subseteq> A"
  shows "spaced (fst (townsLoop n ps towns rng))
       \<and> (\<forall>t \<in> set (fst (townsLoop n ps towns rng)). poi_type t = poi_town \<and> poi_position t \<in> A)"
  using assms
proof (induction n ps towns rng rule: townsLoop.induct)
  case (1 n towns rng)
  then show ?case by simp
next
  case (2 n pos rest towns rng)
  show ?case
  proof (cases "int (length towns) \<ge> n")
    case True
    with "2.prems" show ?thesis by simp
  next
    case full: False
    show ?thesis
    proof (cases "list_ex (\<lambda>t. manhattanDistance pos (poi_position t) < 8) towns")
      case True
      from "2.IH"(1)[OF full True "2.prems"(1,2)] "2.prems"(3) show ?thesis
        using full True by simp
    next
      case far: False
      obtain t rng' where c: "createTown pos rng (length towns = 0) = (t, rng')"
        by (cases "createTown pos rng (length towns = 0)")
      from createTown_fields[of pos rng "length towns = 0"] c
      have tf: "poi_position t = pos" "poi_type t = poi_town" by simp_all
      from far have "\<forall>u \<in> set towns. 8 \<le> manhattanDistance (poi_position t) (poi_position u)"
        by (auto simp: list_ex_iff tf not_less)
      with "2.prems"(1) have sp: "spaced (towns @ [t])" by (rule spaced_snoc)
      have ty: "\<forall>u \<in> set (towns @ [t]). poi_type u = poi_town \<and> poi_position u \<in> A"
        using "2.prems"(2,3) tf by auto
      from "2.prems"(3) have rest: "set rest \<subseteq> A" by simp
      from "2.IH"(2)[OF full far c[symmetric] refl sp ty rest]
      show ?thesis using full far c by simp
    qed
  qed
qed

lemma campsLoop_props:
  assumes "\<forall>t \<in> set camps. poi_type t = poi_enemy_camp \<and> poi_position t \<in> A"
    and "set ps \<subseteq> A"
  shows "\<forall>t \<in> set (fst (campsLoop n towns ps camps rng)).
           poi_type t = poi_enemy_camp \<and> poi_position t \<in> A"
  using assms
proof (induction n towns ps camps rng rule: campsLoop.induct)
  case (1 n towns camps rng)
  then show ?case by simp
next
  case (2 n towns pos rest camps rng)
  show ?case
  proof (cases "int (length camps) \<ge> n")
    case True
    with "2.prems" show ?thesis by simp
  next
    case full: False
    let ?ok = "\<not> list_ex (\<lambda>t. manhattanDistance pos (poi_position t) < 5) towns
               \<and> \<not> list_ex (\<lambda>c. manhattanDistance pos (poi_position c) < 4) camps"
    from "2.prems"(2) have rest: "set rest \<subseteq> A" by simp
    show ?thesis
    proof (cases ?ok)
      case True
      obtain c rng' where c: "createCamp pos rng = (c, rng')" by (cases "createCamp pos rng")
      from createCamp_fields[of pos rng] c
      have cf: "poi_position c = pos" "poi_type c = poi_enemy_camp" by simp_all
      have ty: "\<forall>u \<in> set (camps @ [c]). poi_type u = poi_enemy_camp \<and> poi_position u \<in> A"
        using "2.prems" cf by auto
      from "2.IH"(1)[OF full refl refl True c[symmetric] refl ty rest]
      show ?thesis using full True c by (simp add: Let_def)
    next
      case False
      from "2.IH"(2)[OF full refl refl False "2.prems"(1) rest]
      show ?thesis using full False by (auto simp add: Let_def)
    qed
  qed
qed

lemma encountersLoop_props:
  assumes "\<forall>t \<in> set encs. poi_type t = poi_neutral_encounter \<and> poi_position t \<in> A"
    and "set ps \<subseteq> A"
  shows "\<forall>t \<in> set (fst (encountersLoop n towns camps nodes ps encs rng)).
           poi_type t = poi_neutral_encounter \<and> poi_position t \<in> A"
  using assms
proof (induction n towns camps nodes ps encs rng rule: encountersLoop.induct)
  case (1 n towns camps nodes encs rng)
  then show ?case by simp
next
  case (2 n towns camps nodes pos rest encs rng)
  show ?case
  proof (cases "int (length encs) \<ge> n")
    case True
    with "2.prems" show ?thesis by simp
  next
    case full: False
    let ?close = "list_ex (\<lambda>t. manhattanDistance pos (poi_position t) < 3) towns \<or>
               list_ex (\<lambda>c. manhattanDistance pos (poi_position c) < 3) camps \<or>
               list_ex (\<lambda>r. manhattanDistance pos (node_position r) < 3) nodes \<or>
               list_ex (\<lambda>e. manhattanDistance pos (poi_position e) < 3) encs"
    from "2.prems"(2) have rest: "set rest \<subseteq> A" by simp
    show ?thesis
    proof (cases ?close)
      case False
      obtain e rng' where e: "createEncounter pos rng = (e, rng')"
        by (cases "createEncounter pos rng")
      from createEncounter_fields[of pos rng] e
      have ef: "poi_position e = pos" "poi_type e = poi_neutral_encounter" by simp_all
      have ty: "\<forall>u \<in> set (encs @ [e]). poi_type u = poi_neutral_encounter \<and> poi_position u \<in> A"
        using "2.prems" ef by auto
      from "2.IH"(1)[OF full refl False e[symmetric] refl ty rest]
      show ?thesis using full False e by (simp add: Let_def)
    next
      case True
      from "2.IH"(2)[OF full refl _ "2.prems"(1) rest] True
      show ?thesis using full by (simp add: Let_def)
    qed
  qed
qed

lemma nodesLoop_props:
  assumes "nodesLoop ts n towns camps ps nodes rng = Some (res, rng')"
    and "\<forall>t \<in> set nodes. \<not> isOwned t \<and> node_position t \<in> A"
    and "set ps \<subseteq> A"
  shows "\<forall>t \<in> set res. \<not> isOwned t \<and> node_position t \<in> A"
  using assms
proof (induction ts n towns camps ps nodes rng rule: nodesLoop.induct)
  case (1 ts n towns camps nodes rng)
  then show ?case by simp
next
  case (2 ts n towns camps pos rest nodes rng)
  show ?case
  proof (cases "int (length nodes) \<ge> n")
    case True
    with "2.prems" show ?thesis by simp
  next
    case full: False
    let ?close = "list_ex (\<lambda>t. manhattanDistance pos (poi_position t) < 3) towns \<or>
               list_ex (\<lambda>c. manhattanDistance pos (poi_position c) < 3) camps \<or>
               list_ex (\<lambda>n. manhattanDistance pos (node_position n) < 3) nodes"
    from "2.prems"(3) have rest: "set rest \<subseteq> A" by simp
    show ?thesis
    proof (cases ?close)
      case False
      from "2.prems"(1) full False obtain tile where tile: "tileAt ts pos = Some tile"
        by (auto simp: Let_def split: option.splits)
      obtain nd rng1 where nd: "createNode tile pos rng = (nd, rng1)"
        by (cases "createNode tile pos rng")
      from createNode_fields[of tile pos rng] nd
      have nf: "node_position nd = pos" "\<not> isOwned nd" by simp_all
      have ty: "\<forall>u \<in> set (nodes @ [nd]). \<not> isOwned u \<and> node_position u \<in> A"
        using "2.prems"(2,3) nf by auto
      have run: "nodesLoop ts n towns camps rest (nodes @ [nd]) rng1 = Some (res, rng')"
        using "2.prems"(1) full False tile nd by (simp add: Let_def)
      from "2.IH"(1)[OF full refl False tile nd[symmetric] refl run ty rest]
      show ?thesis .
    next
      case True
      have run: "nodesLoop ts n towns camps rest nodes rng = Some (res, rng')"
        using "2.prems"(1) full True by (simp add: Let_def)
      from "2.IH"(2)[OF full refl _ run "2.prems"(2) rest] True
      show ?thesis by simp
    qed
  qed
qed

lemma generateTerrain_dims:
  "length (fst (generateTerrain w h f rng)) = nat h"
  "\<forall>row \<in> set (fst (generateTerrain w h f rng)). length row = nat w"
  by (simp_all add: generateTerrain_def Let_def split: prod.splits)

lemma terrain_inner:
  assumes "p \<in> set (innerCells (fst (generateTerrain w h f rng)))"
  shows "insideBorder w h p"
proof -
  let ?ts = "fst (generateTerrain w h f rng)"
  from innerCells_inside[OF assms]
  have i: "insideBorder (int (length (?ts ! 0))) (int (length ?ts)) p" .
  then have "3 \<le> length ?ts" by (simp add: insideBorder_def)
  then have "0 < length ?ts" by linarith
  then have "?ts ! 0 \<in> set ?ts" by (rule nth_mem)
  with generateTerrain_dims(2)[of w h f rng] have "length (?ts ! 0) = nat w" by blast
  with i generateTerrain_dims(1)[of w h f rng] show ?thesis
    by (auto simp: insideBorder_def split: if_splits)
qed

lemma generateWorld_parts:
  assumes "generateWorld seedrandom noise config = Some wm"
  shows "\<exists>towns camps encs nodes.
     poiStore wm = (\<lambda>a. (towns @ camps @ encs) ! a)
     \<and> pointsOfInterest wm = [0 ..< length (towns @ camps @ encs)]
     \<and> nodeStore wm = (\<lambda>a. nodes ! a)
     \<and> resourceNodes wm = [0 ..< length nodes]
     \<and> width wm = cfg_width config \<and> height wm = cfg_height config
     \<and> spaced towns
     \<and> (\<forall>t \<in> set towns. poi_type t = poi_town
            \<and> insideBorder (cfg_width config) (cfg_height config) (poi_position t))
     \<and> (\<forall>t \<in> set camps. poi_type t = poi_enemy_camp
            \<and> insideBorder (cfg_width config) (cfg_height config) (poi_position t))
     \<and> (\<forall>t \<in> set encs. poi_type t = poi_neutral_encounter
            \<and> insideBorder (cfg_width config) (cfg_height config) (poi_position t))
     \<and> (\<forall>n \<in> set nodes. \<not> isOwned n
            \<and> insideBorder (cfg_width config) (cfg_height config) (node_position n))"
proof -
  let ?rng0 = "newSeededRandom seedrandom (cfg_seed config)"
  obtain table rng1 where n: "newSimplexNoise ?rng0 = (table, rng1)"
    by (cases "newSimplexNoise ?rng0")
  obtain ts0 rng2 where t: "generateTerrain (cfg_width config) (cfg_height config) (noise table) rng1 = (ts0, rng2)"
    by (cases "generateTerrain (cfg_width config) (cfg_height config) (noise table) rng1")
  let ?A = "{p. insideBorder (cfg_width config) (cfg_height config) p}"
  have inner: "set (innerCells ts0) \<subseteq> ?A"
    using terrain_inner[of _ "cfg_width config" "cfg_height config" "noise table" rng1] t by auto
  from assms n t obtain towns rng3 camps rng4 nodes rng5 encs rng6 ts3 where
    gt: "generateTowns ts0 (numTowns config) rng2 = Some (towns, rng3)"
    and gc: "generateEnemyCamps ts0 (numEnemyCamps config) rng3 towns = Some (camps, rng4)"
    and gn: "generateResourceNodes ts0 (numResourceNodes config) rng4 towns camps = Some (nodes, rng5)"
    and ge: "generateNeutralEncounters ts0 (numNeutralEncounters config) rng5 towns camps nodes
               = Some (encs, rng6)"
    and wm: "wm = \<lparr>width = cfg_width config, height = cfg_height config, tiles = ts3,
                 poiStore = (\<lambda>a. (towns @ camps @ encs) ! a),
                 pointsOfInterest = [0 ..< length (towns @ camps @ encs)],
                 nodeStore = (\<lambda>a. nodes ! a), resourceNodes = [0 ..< length nodes],
                 seed = cfg_seed config\<rparr>"
    by (auto simp: generateWorld_def Let_def split: Option.bind_splits)
  from gt obtain vp1 where vp1: "findValidPositions ts0 [grass, desert] = Some vp1"
    and towns: "towns = fst (townsLoop (numTowns config) (fst (shuffle vp1 rng2)) [] (snd (shuffle vp1 rng2)))"
    by (auto simp: generateTowns_def Let_def split: Option.bind_splits prod.splits)
  have s1: "set (fst (shuffle vp1 rng2)) \<subseteq> ?A"
    using findValidPositions_inner[OF vp1] inner by (simp add: shuffle_set)
  have tp: "spaced towns \<and> (\<forall>t \<in> set towns. poi_type t = poi_town \<and> poi_position t \<in> ?A)"
    unfolding towns by (rule townsLoop_props[OF _ _ s1]) (simp_all add: spaced_def)
  from gc obtain vp2 where vp2: "findValidPositions ts0 [grass, forest, desert] = Some vp2"
    and camps: "camps = fst (campsLoop (numEnemyCamps config) towns (fst (shuffle vp2 rng3)) []
                               (snd (shuffle vp2 rng3)))"
    by (auto simp: generateEnemyCamps_def Let_def split: Option.bind_splits prod.splits)
  have s2: "set (fst (shuffle vp2 rng3)) \<subseteq> ?A"
    using findValidPositions_inner[OF vp2] inner by (simp add: shuffle_set)
  have cp: "\<forall>t \<in> set camps. poi_type t = poi_enemy_camp \<and> poi_position t \<in> ?A"
    unfolding camps by (rule campsLoop_props[OF _ s2]) simp
  from gn obtain vp3 where vp3: "findValidPositions ts0 [grass, forest, desert, mountain] = Some vp3"
    and nodes: "nodesLoop ts0 (numResourceNodes config) towns camps (fst (shuffle vp3 rng4)) []
                  (snd (shuffle vp3 rng4)) = Some (nodes, rng5)"
    by (auto simp: generateResourceNodes_def Let_def split: Option.bind_splits prod.splits)
  have s3: "set (fst (shuffle vp3 rng4)) \<subseteq> ?A"
    using findValidPositions_inner[OF vp3] inner by (simp add: shuffle_set)
  have np: "\<forall>t \<in> set nodes. \<not> isOwned t \<and> node_position t \<in> ?A"
    by (rule nodesLoop_props[OF nodes _ s3]) simp
  from ge obtain vp4 where vp4: "findValidPositions ts0 [grass, forest] = Some vp4"
    and encs: "encs = fst (encountersLoop (numNeutralEncounters config) towns camps nodes
                             (fst (shuffle vp4 rng5)) [] (snd (shuffle vp4 rng5)))"
    by (auto simp: generateNeutralEncounters_def Let_def split: Option.bind_splits prod.splits)
  have s4: "set (fst (shuffle vp4 rng5)) \<subseteq> ?A"
    using findValidPositions_inner[OF vp4] inner by (simp add: shuffle_set)
  have ep: "\<forall>t \<in> set encs. poi_type t = poi_neutral_encounter \<and> poi_position t \<in> ?A"
    unfolding encs by (rule encountersLoop_props[OF _ s4]) simp
  show ?thesis
    using wm tp cp np ep
    by (intro exI[where x = towns] exI[where x = camps] exI[where x = encs]
              exI[where x = nodes]) simp
qed

text \<open>
  \<open>generateWorld\<close> returns for every configuration: no tile that it reads is missing, and
  the walk of a road comes one step closer to its end with every step.
\<close>

lemma tileAt_Some: "rect w h ts \<Longrightarrow> inGrid w h p \<Longrightarrow> \<exists>t. tileAt ts p = Some t"
  by (auto simp: rect_def inGrid_def tileAt_def Let_def)

lemma tileAt_Some_iff: "rect w h ts \<Longrightarrow> (\<exists>t. tileAt ts p = Some t) \<longleftrightarrow> inGrid w h p"
  by (auto simp: rect_def inGrid_def tileAt_def Let_def split: if_splits)

lemma setTile_rect: "rect w h ts \<Longrightarrow> setTile p f ts = Some ts' \<Longrightarrow> rect w h ts'"
proof -
  assume r: "rect w h ts" and s: "setTile p f ts = Some ts'"
  from s obtain t where t: "tileAt ts p = Some t"
    and ts': "ts' = ts[nat (snd p) := (ts ! nat (snd p))[nat (fst p) := f t]]"
    by (auto simp: setTile_def split: option.splits)
  from t have "nat (snd p) < length ts" by (auto simp: tileAt_def split: if_splits)
  then have "ts ! nat (snd p) \<in> set ts" by (rule nth_mem)
  with r have "length ((ts ! nat (snd p))[nat (fst p) := f t]) = w" by (simp add: rect_def)
  with r show ?thesis unfolding ts' rect_def
    by (auto dest!: set_update_subset_insert[THEN subsetD])
qed

lemma setTile_Some: "rect w h ts \<Longrightarrow> inGrid w h p \<Longrightarrow> \<exists>ts'. setTile p f ts = Some ts'"
  using tileAt_Some[of w h ts p] by (auto simp: setTile_def)

lemma those_Some: "(\<forall>x \<in> set xs. f x \<noteq> None) \<Longrightarrow> \<exists>ys. those (map f xs) = Some ys"
  by (induction xs) auto

lemma inside_inGrid: "insideBorder (int w) (int h) p \<Longrightarrow> inGrid w h p"
  by (auto simp: insideBorder_def inGrid_def)

lemma findValidPositions_total:
  assumes "rect w h ts"
  shows "\<exists>ps. findValidPositions ts vt = Some ps"
proof -
  have "tileAt ts p \<noteq> None" if "p \<in> set (innerCells ts)" for p
  proof -
    from innerCells_inside[OF that]
    have i: "insideBorder (int (length (ts ! 0))) (int (length ts)) p" .
    then have "0 < length ts" unfolding insideBorder_def by linarith
    then have "ts ! 0 \<in> set ts" by (rule nth_mem)
    with assms have "length (ts ! 0) = w" "length ts = h" by (simp_all add: rect_def)
    with i have "inGrid w h p" by (simp add: inside_inGrid)
    from tileAt_Some[OF assms this] show ?thesis by auto
  qed
  then have "\<forall>p \<in> set (innerCells ts).
      (case tileAt ts p of None \<Rightarrow> None
       | Some t \<Rightarrow> Some (if terrain t \<in> set vt \<and> isPassable t then [p] else [])) \<noteq> None"
    by (auto split: option.splits)
  from those_Some[OF this] show ?thesis by (auto simp: findValidPositions_def)
qed

lemma nodesLoop_total:
  assumes "rect w h ts" and "\<forall>p \<in> set ps. inGrid w h p"
  shows "\<exists>r. nodesLoop ts n towns camps ps nodes rng = Some r"
  using assms
proof (induction ts n towns camps ps nodes rng rule: nodesLoop.induct)
  case (1 ts n towns camps nodes rng)
  then show ?case by simp
next
  case (2 ts n towns camps pos rest nodes rng)
  from "2.prems" obtain tile where tile: "tileAt ts pos = Some tile"
    using tileAt_Some[of w h ts pos] by auto
  from "2.prems"(2) have rest: "\<forall>p \<in> set rest. inGrid w h p" by simp
  show ?case
  proof (cases "int (length nodes) \<ge> n")
    case True
    then show ?thesis by simp
  next
    case full: False
    let ?close = "list_ex (\<lambda>t. manhattanDistance pos (poi_position t) < 3) towns \<or>
               list_ex (\<lambda>c. manhattanDistance pos (poi_position c) < 3) camps \<or>
               list_ex (\<lambda>n. manhattanDistance pos (node_position n) < 3) nodes"
    show ?thesis
    proof (cases ?close)
      case False
      obtain nd rng1 where nd: "createNode tile pos rng = (nd, rng1)"
        by (cases "createNode tile pos rng")
      from "2.IH"(1)[OF full refl False tile nd[symmetric] refl "2.prems"(1) rest]
      show ?thesis using full False tile nd by (simp add: Let_def)
    next
      case True
      from "2.IH"(2)[OF full refl _ "2.prems"(1) rest] True
      show ?thesis using full by (auto simp add: Let_def)
    qed
  qed
qed

lemma attachPois_total:
  assumes "rect w h ts" and "\<forall>x \<in> set xs. inGrid w h (poi_position (snd x))"
  shows "\<exists>ts'. attachPois xs ts = Some ts' \<and> rect w h ts'"
  using assms
proof (induction xs ts rule: attachPois.induct)
  case (1 ts)
  then show ?case by simp
next
  case (2 a poi rest ts)
  from "2.prems" obtain ts1 where
    s: "setTile (poi_position poi) (\<lambda>t. t\<lparr>pointOfInterest := Some a\<rparr>) ts = Some ts1"
    using setTile_Some[of w h ts "poi_position poi"] by auto
  from setTile_rect[OF "2.prems"(1) s] have r: "rect w h ts1" .
  from "2.IH"[OF s r] "2.prems"(2) show ?case using s by simp
qed

lemma attachNodes_total:
  assumes "rect w h ts" and "\<forall>x \<in> set xs. inGrid w h (node_position (snd x))"
  shows "\<exists>ts'. attachNodes xs ts = Some ts' \<and> rect w h ts'"
  using assms
proof (induction xs ts rule: attachNodes.induct)
  case (1 ts)
  then show ?case by simp
next
  case (2 a node rest ts)
  from "2.prems" obtain ts1 where
    s: "setTile (node_position node) (\<lambda>t. t\<lparr>resourceNode := Some a\<rparr>) ts = Some ts1"
    using setTile_Some[of w h ts "node_position node"] by auto
  from setTile_rect[OF "2.prems"(1) s] have r: "rect w h ts1" .
  from "2.IH"[OF s r] "2.prems"(2) show ?case using s by simp
qed

lemma roadStep_props:
  assumes "inGrid w h cur" and "inGrid w h dest" and "cur \<noteq> dest"
  shows "inGrid w h (roadStep b cur dest)
       \<and> manhattanDistance (roadStep b cur dest) dest + 1 = manhattanDistance cur dest"
  using assms
  by (cases cur; cases dest)
     (auto simp: roadStep_def Let_def manhattanDistance_def inGrid_def sgn_if split: if_splits)


lemma clampToMap_id: "rect w h ts \<Longrightarrow> inGrid w h p \<Longrightarrow> clampToMap ts p = p"
proof -
  assume r: "rect w h ts" and g: "inGrid w h p"
  from g have "0 < h" by (auto simp: inGrid_def)
  with r have "ts ! 0 \<in> set ts" by (auto simp: rect_def)
  with r have "length (ts ! 0) = w" "length ts = h" by (simp_all add: rect_def)
  with g show ?thesis by (cases p) (auto simp: clampToMap_def inGrid_def)
qed

lemma manhattan_zero: "manhattanDistance a b = 0 \<longleftrightarrow> a = b"
  by (cases a; cases b) (auto simp: manhattanDistance_def)

lemma manhattan_nonneg: "0 \<le> manhattanDistance a b"
  by (simp add: manhattanDistance_def)

lemma walkRoad_total:
  "rect w h ts \<Longrightarrow> inGrid w h cur \<Longrightarrow> inGrid w h dest
   \<Longrightarrow> nat (manhattanDistance cur dest) = n
   \<Longrightarrow> \<exists>ts' rng'. walkRoad ts cur dest rng = Some (ts', rng') \<and> rect w h ts'"
proof (induction n arbitrary: ts cur rng)
  case 0
  then have "manhattanDistance cur dest = 0" using manhattan_nonneg[of cur dest] by simp
  then have "cur = dest" by (simp add: manhattan_zero)
  then show ?case using "0.prems"(1) by (subst walkRoad.simps) simp
next
  case (Suc n)
  then have ne: "cur \<noteq> dest" using manhattan_zero[of cur dest] by auto
  then have cond: "fst cur \<noteq> fst dest \<or> snd cur \<noteq> snd dest" by (auto simp: prod_eq_iff)
  from setTile_Some[OF Suc.prems(1,2)] obtain ts1 where s: "setTile cur carve ts = Some ts1"
    by blast
  from setTile_rect[OF Suc.prems(1) s] have r1: "rect w h ts1" .
  let ?b = "fst (chance (3 / 5) rng)"
  let ?step = "roadStep ?b cur dest"
  from roadStep_props[OF Suc.prems(2,3) ne, of ?b]
  have g: "inGrid w h ?step" and d: "manhattanDistance ?step dest + 1 = manhattanDistance cur dest"
    by simp_all
  from d Suc.prems(4) have dn: "nat (manhattanDistance ?step dest) = n"
    using manhattan_nonneg[of ?step dest] by linarith
  from clampToMap_id[OF r1 g] have c: "clampToMap ts1 ?step = ?step" .
  from Suc.IH[OF r1 g Suc.prems(3) dn, of "snd (chance (3 / 5) rng)"]
  show ?case using cond s c by (subst walkRoad.simps) simp
qed

lemma roadsLoop_total:
  "rect w h ts \<Longrightarrow> \<forall>t \<in> set towns. inGrid w h (poi_position t)
   \<Longrightarrow> \<exists>r. roadsLoop ts towns rng = Some r"
proof (induction towns arbitrary: ts rng)
  case Nil
  show ?case by simp
next
  case (Cons a more)
  show ?case
  proof (cases more)
    case Nil
    then show ?thesis by simp
  next
    case (Cons b rest)
    from walkRoad_total[OF Cons.prems(1), of "poi_position a" "poi_position b" _ rng]
      Cons.prems(2) Cons
    obtain ts' rng' where
      w: "walkRoad ts (poi_position a) (poi_position b) rng = Some (ts', rng')"
      and r: "rect w h ts'" by auto
    from Cons.prems(2) have "\<forall>t \<in> set more. inGrid w h (poi_position t)" by simp
    from Cons.IH[OF r this, of rng'] show ?thesis using w Cons by simp
  qed
qed


lemma innerCells_inGrid:
  assumes "rect w h ts" and "p \<in> set (innerCells ts)"
  shows "inGrid w h p"
proof -
  from innerCells_inside[OF assms(2)]
  have i: "insideBorder (int (length (ts ! 0))) (int (length ts)) p" .
  then have "0 < length ts" unfolding insideBorder_def by linarith
  then have "ts ! 0 \<in> set ts" by (rule nth_mem)
  with assms(1) have "length (ts ! 0) = w" "length ts = h" by (simp_all add: rect_def)
  with i show ?thesis by (simp add: inside_inGrid)
qed

lemma generateWorld_total: "\<exists>wm. generateWorld seedrandom noise config = Some wm"
proof -
  let ?rng0 = "newSeededRandom seedrandom (cfg_seed config)"
  let ?w = "nat (cfg_width config)" and ?h = "nat (cfg_height config)"
  let ?A = "{p. inGrid ?w ?h p}"
  obtain table rng1 where n: "newSimplexNoise ?rng0 = (table, rng1)"
    by (cases "newSimplexNoise ?rng0")
  obtain ts0 rng2 where
    t: "generateTerrain (cfg_width config) (cfg_height config) (noise table) rng1 = (ts0, rng2)"
    by (cases "generateTerrain (cfg_width config) (cfg_height config) (noise table) rng1")
  have r0: "rect ?w ?h ts0"
    using generateTerrain_dims[of "cfg_width config" "cfg_height config" "noise table" rng1] t
    by (simp add: rect_def)
  have inner: "set (innerCells ts0) \<subseteq> ?A" using innerCells_inGrid[OF r0] by auto
  have valid: "\<exists>vp. findValidPositions ts0 vt = Some vp \<and> set (fst (shuffle vp rng)) \<subseteq> ?A"
    for vt rng
  proof -
    from findValidPositions_total[OF r0] obtain vp where vp: "findValidPositions ts0 vt = Some vp"
      by blast
    from findValidPositions_inner[OF vp] inner have "set (fst (shuffle vp rng)) \<subseteq> ?A"
      by (simp add: shuffle_set)
    with vp show ?thesis by blast
  qed
  from valid[of "[grass, desert]" rng2] obtain vp1 where
    vp1: "findValidPositions ts0 [grass, desert] = Some vp1"
    and s1: "set (fst (shuffle vp1 rng2)) \<subseteq> ?A" by blast
  obtain towns rng3 where
    tl: "townsLoop (numTowns config) (fst (shuffle vp1 rng2)) [] (snd (shuffle vp1 rng2))
           = (towns, rng3)"
    by (cases "townsLoop (numTowns config) (fst (shuffle vp1 rng2)) [] (snd (shuffle vp1 rng2))")
  have gt: "generateTowns ts0 (numTowns config) rng2 = Some (towns, rng3)"
    using vp1 tl by (simp add: generateTowns_def Let_def split_beta)
  have tp: "\<forall>t \<in> set towns. poi_position t \<in> ?A"
    using townsLoop_props[OF _ _ s1, of "[]" "numTowns config" "snd (shuffle vp1 rng2)"] tl
    by (simp add: spaced_def)
  from valid[of "[grass, forest, desert]" rng3] obtain vp2 where
    vp2: "findValidPositions ts0 [grass, forest, desert] = Some vp2"
    and s2: "set (fst (shuffle vp2 rng3)) \<subseteq> ?A" by blast
  obtain camps rng4 where
    cl: "campsLoop (numEnemyCamps config) towns (fst (shuffle vp2 rng3)) []
           (snd (shuffle vp2 rng3)) = (camps, rng4)"
    by (cases "campsLoop (numEnemyCamps config) towns (fst (shuffle vp2 rng3)) []
           (snd (shuffle vp2 rng3))")
  have gc: "generateEnemyCamps ts0 (numEnemyCamps config) rng3 towns = Some (camps, rng4)"
    using vp2 cl by (simp add: generateEnemyCamps_def Let_def split_beta)
  have cp: "\<forall>t \<in> set camps. poi_position t \<in> ?A"
    using campsLoop_props[OF _ s2, of "[]" "numEnemyCamps config" towns "snd (shuffle vp2 rng3)"] cl
    by simp
  from valid[of "[grass, forest, desert, mountain]" rng4] obtain vp3 where
    vp3: "findValidPositions ts0 [grass, forest, desert, mountain] = Some vp3"
    and s3: "set (fst (shuffle vp3 rng4)) \<subseteq> ?A" by blast
  from nodesLoop_total[OF r0, of "fst (shuffle vp3 rng4)" "numResourceNodes config" towns camps
         "[]" "snd (shuffle vp3 rng4)"] s3
  obtain nodes rng5 where
    nl: "nodesLoop ts0 (numResourceNodes config) towns camps (fst (shuffle vp3 rng4)) []
           (snd (shuffle vp3 rng4)) = Some (nodes, rng5)"
    by auto
  have gn: "generateResourceNodes ts0 (numResourceNodes config) rng4 towns camps
              = Some (nodes, rng5)"
    using vp3 nl by (simp add: generateResourceNodes_def Let_def split_beta)
  have np: "\<forall>t \<in> set nodes. node_position t \<in> ?A"
    using nodesLoop_props[OF nl _ s3] by simp
  from valid[of "[grass, forest]" rng5] obtain vp4 where
    vp4: "findValidPositions ts0 [grass, forest] = Some vp4"
    and s4: "set (fst (shuffle vp4 rng5)) \<subseteq> ?A" by blast
  obtain encs rng6 where
    el: "encountersLoop (numNeutralEncounters config) towns camps nodes (fst (shuffle vp4 rng5)) []
           (snd (shuffle vp4 rng5)) = (encs, rng6)"
    by (cases "encountersLoop (numNeutralEncounters config) towns camps nodes
                 (fst (shuffle vp4 rng5)) [] (snd (shuffle vp4 rng5))")
  have ge: "generateNeutralEncounters ts0 (numNeutralEncounters config) rng5 towns camps nodes
              = Some (encs, rng6)"
    using vp4 el by (simp add: generateNeutralEncounters_def Let_def split_beta)
  have ep: "\<forall>t \<in> set encs. poi_position t \<in> ?A"
    using encountersLoop_props[OF _ s4, of "[]" "numNeutralEncounters config" towns camps nodes
            "snd (shuffle vp4 rng5)"] el
    by simp
  let ?all = "towns @ camps @ encs"
  have "\<forall>x \<in> set (zip [0 ..< length ?all] ?all). inGrid ?w ?h (poi_position (snd x))"
    using tp cp ep by (auto dest!: set_zip_rightD)
  from attachPois_total[OF r0 this] obtain ts1 where
    a1: "attachPois (zip [0 ..< length ?all] ?all) ts0 = Some ts1" and r1: "rect ?w ?h ts1"
    by blast
  have "\<forall>x \<in> set (zip [0 ..< length nodes] nodes). inGrid ?w ?h (node_position (snd x))"
    using np by (auto dest!: set_zip_rightD)
  from attachNodes_total[OF r1 this] obtain ts2 where
    a2: "attachNodes (zip [0 ..< length nodes] nodes) ts1 = Some ts2" and r2: "rect ?w ?h ts2"
    by blast
  from roadsLoop_total[OF r2, of towns rng6] tp obtain ts3 rng7 where
    rd: "generateRoads ts2 towns rng6 = Some (ts3, rng7)"
    by (auto simp: generateRoads_def)
  show ?thesis
    using n t gt gc gn ge a1 a2 rd by (simp add: generateWorld_def Let_def)
qed

text \<open>
  The concrete run: every inner cell of the map is a candidate, so the second town and the
  resource node find a place whatever the order of the shuffled candidates is.
\<close>

lemma those_map_Some:
  "(\<And>x. x \<in> set xs \<Longrightarrow> f x = Some (g x)) \<Longrightarrow> those (map f xs) = Some (map g xs)"
  by (induction xs) simp_all

lemma concat_singletons: "concat (map (\<lambda>x. [x]) xs) = xs"
  by (induction xs) simp_all

lemma tileAt_in_rows:
  "tileAt ts p = Some t \<Longrightarrow> \<exists>row \<in> set ts. t \<in> set row"
  by (auto simp: tileAt_def Let_def split: if_splits intro!: bexI[of _ "ts ! nat (snd p)"])

lemma findValidPositions_all:
  assumes r: "rect w h ts"
    and ok: "\<forall>row \<in> set ts. \<forall>t \<in> set row. terrain t \<in> set vt \<and> isPassable t"
  shows "findValidPositions ts vt = Some (innerCells ts)"
proof -
  have "those (map (\<lambda>pos. case tileAt ts pos of
                            None \<Rightarrow> None
                          | Some t \<Rightarrow> Some (if terrain t \<in> set vt \<and> isPassable t
                                             then [pos] else []))
                   (innerCells ts)) = Some (map (\<lambda>p. [p]) (innerCells ts))"
  proof (rule those_map_Some)
    fix p assume "p \<in> set (innerCells ts)"
    from innerCells_inGrid[OF r this] have "inGrid w h p" .
    with r obtain t where t: "tileAt ts p = Some t" using tileAt_Some by blast
    from tileAt_in_rows[OF t] ok have "terrain t \<in> set vt \<and> isPassable t" by blast
    with t show "(case tileAt ts p of None \<Rightarrow> None
                  | Some t \<Rightarrow> Some (if terrain t \<in> set vt \<and> isPassable t then [p] else []))
                 = Some [p]" by simp
  qed
  then show ?thesis by (simp add: findValidPositions_def concat_singletons)
qed

lemma flat_terrain:
  assumes "row \<in> set (fst (generateTerrain w h (flatNoise table) rng))" and "t \<in> set row"
  shows "terrain t = grass \<and> isPassable t"
  using assms
  by (auto simp: generateTerrain_def Let_def makeTile_def determineTerrain_def flatNoise_def
      split: prod.splits)

lemma innerCells_iff:
  assumes "rect w h ts" and "0 < h"
  shows "p \<in> set (innerCells ts) \<longleftrightarrow> insideBorder (int w) (int h) p"
proof -
  from assms have "ts ! 0 \<in> set ts" by (simp add: rect_def)
  with assms(1) have l: "length (ts ! 0) = w" "length ts = h" by (simp_all add: rect_def)
  show ?thesis
  proof
    assume "p \<in> set (innerCells ts)"
    from innerCells_inside[OF this] l show "insideBorder (int w) (int h) p" by simp
  next
    assume i: "insideBorder (int w) (int h) p"
    obtain x y where p: "p = (x, y)" by (cases p)
    from i p have b: "1 \<le> x" "x \<le> int w - 2" "1 \<le> y" "y \<le> int h - 2"
      by (simp_all add: insideBorder_def)
    let ?row = "\<lambda>y'. map (\<lambda>x'. (int x', int y')) [1 ..< w - 1]"
    from b have xm: "nat x \<in> set [1 ..< w - 1]" and ym: "nat y \<in> set [1 ..< h - 1]" by auto
    from b have xy: "(x, y) = (int (nat x), int (nat y))" by simp
    have "(int (nat x), int (nat y)) \<in> (\<lambda>x'. (int x', int (nat y))) ` set [1 ..< w - 1]"
      using xm by (rule imageI)
    then have m1: "(x, y) \<in> set (?row (nat y))" using xy by (simp only: set_map)
    have "?row (nat y) \<in> ?row ` set [1 ..< h - 1]" using ym by (rule imageI)
    then have m2: "?row (nat y) \<in> set (map ?row [1 ..< h - 1])" by (simp only: set_map)
    from m1 m2 have "(x, y) \<in> set (concat (map ?row [1 ..< h - 1]))"
      unfolding set_concat by (rule UN_I[rotated])
    then have "(x, y) \<in> set (innerCells ts)" unfolding innerCells_def l .
    with p show "p \<in> set (innerCells ts)" by simp
  qed
qed


lemma townsLoop_length_mono: "length towns \<le> length (fst (townsLoop n ps towns rng))"
proof (induction n ps towns rng rule: townsLoop.induct)
  case (1 n towns rng)
  show ?case by simp
next
  case (2 n pos rest towns rng)
  show ?case
  proof (cases "int (length towns) \<ge> n")
    case True
    then show ?thesis by simp
  next
    case notfull: False
    show ?thesis
    proof (cases "list_ex (\<lambda>t. manhattanDistance pos (poi_position t) < 8) towns")
      case True
      with notfull 2(1) show ?thesis by simp
    next
      case False
      obtain t rng' where c: "createTown pos rng (length towns = 0) = (t, rng')"
        by (cases "createTown pos rng (length towns = 0)")
      from 2(2)[OF notfull False c[symmetric] refl]
      have "length (towns @ [t]) \<le> length (fst (townsLoop n rest (towns @ [t]) rng'))" .
      with notfull False c show ?thesis by simp
    qed
  qed
qed

lemma townsLoop_length_le:
  "length (fst (townsLoop n ps towns rng)) \<le> max (nat n) (length towns)"
proof (induction n ps towns rng rule: townsLoop.induct)
  case (1 n towns rng)
  show ?case by simp
next
  case (2 n pos rest towns rng)
  show ?case
  proof (cases "int (length towns) \<ge> n")
    case True
    then show ?thesis by simp
  next
    case notfull: False
    show ?thesis
    proof (cases "list_ex (\<lambda>t. manhattanDistance pos (poi_position t) < 8) towns")
      case True
      with notfull 2(1) show ?thesis by simp
    next
      case False
      obtain t rng' where c: "createTown pos rng (length towns = 0) = (t, rng')"
        by (cases "createTown pos rng (length towns = 0)")
      from 2(2)[OF notfull False c[symmetric] refl]
      have "length (fst (townsLoop n rest (towns @ [t]) rng'))
              \<le> max (nat n) (length (towns @ [t]))" .
      with notfull False c show ?thesis by simp
    qed
  qed
qed

lemma townsLoop_grows:
  assumes "int (length towns) < n" and "q \<in> set ps"
    and "\<forall>t \<in> set towns. 8 \<le> manhattanDistance q (poi_position t)"
  shows "length towns < length (fst (townsLoop n ps towns rng))"
  using assms
proof (induction ps arbitrary: rng)
  case Nil
  then show ?case by simp
next
  case (Cons pos rest)
  from Cons.prems(1) have notfull: "\<not> int (length towns) \<ge> n" by simp
  show ?case
  proof (cases "list_ex (\<lambda>t. manhattanDistance pos (poi_position t) < 8) towns")
    case True
    with Cons.prems(3) have "q \<noteq> pos" by (auto simp: list_ex_iff)
    with Cons.prems(2) have "q \<in> set rest" by simp
    from Cons.IH[OF Cons.prems(1) this Cons.prems(3)] True notfull show ?thesis by simp
  next
    case False
    obtain t rng' where c: "createTown pos rng (length towns = 0) = (t, rng')"
      by (cases "createTown pos rng (length towns = 0)")
    have "length (towns @ [t]) \<le> length (fst (townsLoop n rest (towns @ [t]) rng'))"
      by (rule townsLoop_length_mono)
    with notfull False c show ?thesis by simp
  qed
qed

lemma campsLoop_zero: "campsLoop 0 towns ps [] rng = ([], rng)"
  by (cases ps) simp_all

lemma encountersLoop_zero: "encountersLoop 0 towns camps nodes ps [] rng = ([], rng)"
  by (cases ps) simp_all

lemma nodesLoop_length:
  assumes "nodesLoop ts n towns camps ps nodes rng = Some (res, rng')"
  shows "length nodes \<le> length res \<and> length res \<le> max (nat n) (length nodes)"
  using assms
proof (induction ts n towns camps ps nodes rng rule: nodesLoop.induct)
  case (1 ts n towns camps nodes rng)
  then show ?case by simp
next
  case (2 ts n towns camps pos rest nodes rng)
  show ?case
  proof (cases "int (length nodes) \<ge> n")
    case True
    with 2(3) show ?thesis by simp
  next
    case notfull: False
    let ?close = "list_ex (\<lambda>t. manhattanDistance pos (poi_position t) < 3) towns \<or>
               list_ex (\<lambda>c. manhattanDistance pos (poi_position c) < 3) camps \<or>
               list_ex (\<lambda>n. manhattanDistance pos (node_position n) < 3) nodes"
    show ?thesis
    proof (cases ?close)
      case True
      with notfull 2(3) have "nodesLoop ts n towns camps rest nodes rng = Some (res, rng')"
        by (simp add: Let_def)
      from 2(2)[OF notfull refl _ this] True show ?thesis by simp
    next
      case False
      with notfull 2(3) obtain tile where t: "tileAt ts pos = Some tile"
        by (auto simp: Let_def split: option.splits)
      obtain node rng1 where c: "createNode tile pos rng = (node, rng1)"
        by (cases "createNode tile pos rng")
      from notfull False t c 2(3)
      have r: "nodesLoop ts n towns camps rest (nodes @ [node]) rng1 = Some (res, rng')"
        by (simp add: Let_def)
      from 2(1)[OF notfull refl _ t c[symmetric] refl r] False
      have "length (nodes @ [node]) \<le> length res
            \<and> length res \<le> max (nat n) (length (nodes @ [node]))" by simp
      with notfull show ?thesis by simp
    qed
  qed
qed

lemma nodesLoop_first:
  assumes "nodesLoop ts n towns camps ps [] rng = Some (res, rng')"
    and "0 < n" and "q \<in> set ps"
    and "\<forall>t \<in> set towns. 3 \<le> manhattanDistance q (poi_position t)"
    and "\<forall>c \<in> set camps. 3 \<le> manhattanDistance q (poi_position c)"
  shows "res \<noteq> []"
  using assms
proof (induction ps arbitrary: rng)
  case Nil
  then show ?case by simp
next
  case (Cons pos rest)
  let ?close = "list_ex (\<lambda>t. manhattanDistance pos (poi_position t) < 3) towns \<or>
               list_ex (\<lambda>c. manhattanDistance pos (poi_position c) < 3) camps"
  show ?case
  proof (cases ?close)
    case True
    with Cons.prems(4,5) have "q \<noteq> pos" by (auto simp: list_ex_iff)
    with Cons.prems(3) have q: "q \<in> set rest" by simp
    from True Cons.prems(1,2) have "nodesLoop ts n towns camps rest [] rng = Some (res, rng')"
      by (simp add: Let_def)
    from Cons.IH[OF this Cons.prems(2) q Cons.prems(4,5)] show ?thesis .
  next
    case False
    with Cons.prems(1,2) obtain tile where t: "tileAt ts pos = Some tile"
      by (auto simp: Let_def split: option.splits)
    obtain node rng1 where c: "createNode tile pos rng = (node, rng1)"
      by (cases "createNode tile pos rng")
    from False t c Cons.prems(1,2)
    have "nodesLoop ts n towns camps rest [node] rng1 = Some (res, rng')"
      by (simp add: Let_def)
    from nodesLoop_length[OF this] show ?thesis by auto
  qed
qed

lemma generateWorld_stages:
  assumes "generateWorld seedrandom noise config = Some wm"
  obtains table rng1 ts0 rng2 vp1 towns rng3 vp2 camps rng4 vp3 nodes rng5 vp4 encs rng6 where
    "newSimplexNoise (newSeededRandom seedrandom (cfg_seed config)) = (table, rng1)"
    "generateTerrain (cfg_width config) (cfg_height config) (noise table) rng1 = (ts0, rng2)"
    "findValidPositions ts0 [grass, desert] = Some vp1"
    "townsLoop (numTowns config) (fst (shuffle vp1 rng2)) [] (snd (shuffle vp1 rng2))
       = (towns, rng3)"
    "findValidPositions ts0 [grass, forest, desert] = Some vp2"
    "campsLoop (numEnemyCamps config) towns (fst (shuffle vp2 rng3)) [] (snd (shuffle vp2 rng3))
       = (camps, rng4)"
    "findValidPositions ts0 [grass, forest, desert, mountain] = Some vp3"
    "nodesLoop ts0 (numResourceNodes config) towns camps (fst (shuffle vp3 rng4)) []
       (snd (shuffle vp3 rng4)) = Some (nodes, rng5)"
    "findValidPositions ts0 [grass, forest] = Some vp4"
    "encountersLoop (numNeutralEncounters config) towns camps nodes (fst (shuffle vp4 rng5)) []
       (snd (shuffle vp4 rng5)) = (encs, rng6)"
    "poiStore wm = (\<lambda>a. (towns @ camps @ encs) ! a)"
    "pointsOfInterest wm = [0 ..< length (towns @ camps @ encs)]"
    "nodeStore wm = (\<lambda>a. nodes ! a)" "resourceNodes wm = [0 ..< length nodes]"
    "width wm = cfg_width config" "height wm = cfg_height config"
proof -
  let ?rng0 = "newSeededRandom seedrandom (cfg_seed config)"
  obtain table rng1 where n: "newSimplexNoise ?rng0 = (table, rng1)"
    by (cases "newSimplexNoise ?rng0")
  obtain ts0 rng2 where
    t: "generateTerrain (cfg_width config) (cfg_height config) (noise table) rng1 = (ts0, rng2)"
    by (cases "generateTerrain (cfg_width config) (cfg_height config) (noise table) rng1")
  from assms n t obtain towns rng3 camps rng4 nodes rng5 encs rng6 ts3 where
    gt: "generateTowns ts0 (numTowns config) rng2 = Some (towns, rng3)"
    and gc: "generateEnemyCamps ts0 (numEnemyCamps config) rng3 towns = Some (camps, rng4)"
    and gn: "generateResourceNodes ts0 (numResourceNodes config) rng4 towns camps
               = Some (nodes, rng5)"
    and ge: "generateNeutralEncounters ts0 (numNeutralEncounters config) rng5 towns camps nodes
               = Some (encs, rng6)"
    and wm: "wm = \<lparr>width = cfg_width config, height = cfg_height config, tiles = ts3,
                 poiStore = (\<lambda>a. (towns @ camps @ encs) ! a),
                 pointsOfInterest = [0 ..< length (towns @ camps @ encs)],
                 nodeStore = (\<lambda>a. nodes ! a), resourceNodes = [0 ..< length nodes],
                 seed = cfg_seed config\<rparr>"
    by (auto simp: generateWorld_def Let_def split: Option.bind_splits)
  from gt obtain vp1 where vp1: "findValidPositions ts0 [grass, desert] = Some vp1"
    and towns: "townsLoop (numTowns config) (fst (shuffle vp1 rng2)) [] (snd (shuffle vp1 rng2))
                  = (towns, rng3)"
    by (auto simp: generateTowns_def Let_def split_beta split: Option.bind_splits)
  from gc obtain vp2 where vp2: "findValidPositions ts0 [grass, forest, desert] = Some vp2"
    and camps: "campsLoop (numEnemyCamps config) towns (fst (shuffle vp2 rng3)) []
                  (snd (shuffle vp2 rng3)) = (camps, rng4)"
    by (auto simp: generateEnemyCamps_def Let_def split_beta split: Option.bind_splits)
  from gn obtain vp3 where
    vp3: "findValidPositions ts0 [grass, forest, desert, mountain] = Some vp3"
    and nodes: "nodesLoop ts0 (numResourceNodes config) towns camps (fst (shuffle vp3 rng4)) []
                  (snd (shuffle vp3 rng4)) = Some (nodes, rng5)"
    by (auto simp: generateResourceNodes_def Let_def split_beta split: Option.bind_splits)
  from ge obtain vp4 where vp4: "findValidPositions ts0 [grass, forest] = Some vp4"
    and encs: "encountersLoop (numNeutralEncounters config) towns camps nodes
                 (fst (shuffle vp4 rng5)) [] (snd (shuffle vp4 rng5)) = (encs, rng6)"
    by (auto simp: generateNeutralEncounters_def Let_def split_beta split: Option.bind_splits)
  from wm show ?thesis
    by (intro that[OF n t vp1 towns vp2 camps vp3 nodes vp4 encs]) simp_all
qed


lemma far_corner:
  assumes "insideBorder 20 3 p"
  shows "\<exists>q. insideBorder 20 3 q \<and> 8 \<le> manhattanDistance q p"
proof (cases "fst p \<le> 9")
  case True
  with assms have "insideBorder 20 3 (18, 1) \<and> 8 \<le> manhattanDistance (18, 1) p"
    by (auto simp: insideBorder_def manhattanDistance_def)
  then show ?thesis by blast
next
  case False
  with assms have "insideBorder 20 3 (1, 1) \<and> 8 \<le> manhattanDistance (1, 1) p"
    by (auto simp: insideBorder_def manhattanDistance_def)
  then show ?thesis by blast
qed

lemma free_cell:
  assumes "insideBorder 20 3 a" and "insideBorder 20 3 b"
  shows "\<exists>q. insideBorder 20 3 q \<and> 3 \<le> manhattanDistance q a \<and> 3 \<le> manhattanDistance q b"
proof -
  from assms have y: "snd a = 1" "snd b = 1" by (auto simp: insideBorder_def)
  have "(3 \<le> \<bar>1 - fst a\<bar> \<and> 3 \<le> \<bar>1 - fst b\<bar>) \<or> (3 \<le> \<bar>6 - fst a\<bar> \<and> 3 \<le> \<bar>6 - fst b\<bar>)
        \<or> (3 \<le> \<bar>11 - fst a\<bar> \<and> 3 \<le> \<bar>11 - fst b\<bar>)"
    by arith
  then consider "3 \<le> manhattanDistance (1, 1) a \<and> 3 \<le> manhattanDistance (1, 1) b"
    | "3 \<le> manhattanDistance (6, 1) a \<and> 3 \<le> manhattanDistance (6, 1) b"
    | "3 \<le> manhattanDistance (11, 1) a \<and> 3 \<le> manhattanDistance (11, 1) b"
    using y by (auto simp: manhattanDistance_def)
  then show ?thesis
  proof cases
    case 1
    moreover have "insideBorder 20 3 (1, 1)" by (simp add: insideBorder_def)
    ultimately show ?thesis by blast
  next
    case 2
    moreover have "insideBorder 20 3 (6, 1)" by (simp add: insideBorder_def)
    ultimately show ?thesis by blast
  next
    case 3
    moreover have "insideBorder 20 3 (11, 1)" by (simp add: insideBorder_def)
    ultimately show ?thesis by blast
  qed
qed

lemma demo_world:
  "\<exists>wm. generateWorld zeroDraws flatNoise demoConfig = Some wm
     \<and> pointsOfInterest wm = [0, 1]
     \<and> poi_type (poiStore wm 0) = poi_town \<and> poi_type (poiStore wm 1) = poi_town
     \<and> resourceNodes wm = [0] \<and> width wm = 20 \<and> height wm = 3"
proof -
  from generateWorld_total obtain wm where
    wm: "generateWorld zeroDraws flatNoise demoConfig = Some wm" by blast
  from generateWorld_stages[OF wm]
  obtain table rng1 ts0 rng2 vp1 towns rng3 vp2 camps rng4 vp3 nodes rng5 vp4 encs rng6 where
    t: "generateTerrain (cfg_width demoConfig) (cfg_height demoConfig) (flatNoise table) rng1
          = (ts0, rng2)"
    and vp1: "findValidPositions ts0 [grass, desert] = Some vp1"
    and tl: "townsLoop (numTowns demoConfig) (fst (shuffle vp1 rng2)) []
               (snd (shuffle vp1 rng2)) = (towns, rng3)"
    and cl: "campsLoop (numEnemyCamps demoConfig) towns (fst (shuffle vp2 rng3)) []
               (snd (shuffle vp2 rng3)) = (camps, rng4)"
    and vp3: "findValidPositions ts0 [grass, forest, desert, mountain] = Some vp3"
    and nl: "nodesLoop ts0 (numResourceNodes demoConfig) towns camps (fst (shuffle vp3 rng4)) []
               (snd (shuffle vp3 rng4)) = Some (nodes, rng5)"
    and el: "encountersLoop (numNeutralEncounters demoConfig) towns camps nodes
               (fst (shuffle vp4 rng5)) [] (snd (shuffle vp4 rng5)) = (encs, rng6)"
    and ps: "poiStore wm = (\<lambda>a. (towns @ camps @ encs) ! a)"
    and pl: "pointsOfInterest wm = [0 ..< length (towns @ camps @ encs)]"
    and rn: "resourceNodes wm = [0 ..< length nodes]"
    and wh: "width wm = cfg_width demoConfig" "height wm = cfg_height demoConfig"
    by metis
  have cfg: "cfg_width demoConfig = 20" "cfg_height demoConfig = 3" "numTowns demoConfig = 2"
    "numEnemyCamps demoConfig = 0" "numResourceNodes demoConfig = 1"
    "numNeutralEncounters demoConfig = 0"
    by (simp_all add: demoConfig_def)
  have r0: "rect 20 3 ts0"
    using generateTerrain_dims[of 20 3 "flatNoise table" rng1] t
    by (simp add: rect_def cfg)
  have flat: "\<forall>row \<in> set ts0. \<forall>x \<in> set row. terrain x = grass \<and> isPassable x"
    using flat_terrain[of _ 20 3 table rng1] t by (auto simp: cfg)
  have inner: "p \<in> set (innerCells ts0) \<longleftrightarrow> insideBorder 20 3 p" for p
    using innerCells_iff[OF r0, of p] by simp
  have "findValidPositions ts0 [grass, desert] = Some (innerCells ts0)"
    by (rule findValidPositions_all[OF r0]) (use flat in auto)
  with vp1 have v1: "vp1 = innerCells ts0" by simp
  have "findValidPositions ts0 [grass, forest, desert, mountain] = Some (innerCells ts0)"
    by (rule findValidPositions_all[OF r0]) (use flat in auto)
  with vp3 have v3: "vp3 = innerCells ts0" by simp
  let ?ps1 = "fst (shuffle vp1 rng2)"
  have s1: "p \<in> set ?ps1 \<longleftrightarrow> insideBorder 20 3 p" for p
    by (simp add: shuffle_set v1 inner)
  have "(1, 1) \<in> set ?ps1" by (simp add: s1 insideBorder_def)
  then obtain p rest where pr: "?ps1 = p # rest" by (cases ?ps1) auto
  obtain t0 rngA where c: "createTown p (snd (shuffle vp1 rng2)) True = (t0, rngA)"
    by (cases "createTown p (snd (shuffle vp1 rng2)) True")
  have pos0: "poi_position t0 = p" using createTown_fields(1)[of p "snd (shuffle vp1 rng2)" True] c
    by simp
  from tl pr c have tl2: "townsLoop 2 rest [t0] rngA = (towns, rng3)" by (simp add: cfg)
  have pin: "insideBorder 20 3 p" using s1[of p] pr by simp
  from far_corner[OF pin] obtain q where q: "insideBorder 20 3 q" "8 \<le> manhattanDistance q p"
    by blast
  then have "q \<noteq> p" by (auto simp: manhattanDistance_def)
  with q(1) s1[of q] pr have qr: "q \<in> set rest" by simp
  have "length [t0] < length (fst (townsLoop 2 rest [t0] rngA))"
    by (rule townsLoop_grows[OF _ qr]) (simp_all add: pos0 q)
  moreover have "length (fst (townsLoop 2 rest [t0] rngA)) \<le> max (nat 2) (length [t0])"
    by (rule townsLoop_length_le)
  ultimately have lt: "length towns = 2" using tl2 by simp
  have sub: "set ?ps1 \<subseteq> {p. insideBorder 20 3 p}" using s1 by blast
  have "\<forall>x \<in> set (fst (townsLoop (numTowns demoConfig) ?ps1 [] (snd (shuffle vp1 rng2)))).
          poi_type x = poi_town \<and> poi_position x \<in> {p. insideBorder 20 3 p}"
    by (rule townsLoop_props[OF _ _ sub, THEN conjunct2]) (simp_all add: spaced_def)
  with tl have tp: "\<forall>x \<in> set towns. poi_type x = poi_town \<and> insideBorder 20 3 (poi_position x)"
    by simp
  from cl have camps: "camps = []" by (simp add: cfg campsLoop_zero)
  from el have encs: "encs = []" by (simp add: cfg encountersLoop_zero)
  from lt obtain a b where ab: "towns = [a, b]"
    by (cases towns; cases "tl towns") auto
  from tp ab have ia: "insideBorder 20 3 (poi_position a)" "insideBorder 20 3 (poi_position b)"
    by simp_all
  from free_cell[OF ia] obtain c3 where c3: "insideBorder 20 3 c3"
    "3 \<le> manhattanDistance c3 (poi_position a)" "3 \<le> manhattanDistance c3 (poi_position b)"
    by blast
  have c3m: "c3 \<in> set (fst (shuffle vp3 rng4))" by (simp add: shuffle_set v3 inner c3)
  from nl have nl1: "nodesLoop ts0 1 towns camps (fst (shuffle vp3 rng4)) []
               (snd (shuffle vp3 rng4)) = Some (nodes, rng5)" by (simp add: cfg)
  have "nodes \<noteq> []"
    by (rule nodesLoop_first[OF nl1 _ c3m]) (simp_all add: ab camps c3)
  moreover from nodesLoop_length[OF nl1] have "length nodes \<le> 1" by simp
  ultimately have ln: "length nodes = 1" by (cases nodes) auto
  have "pointsOfInterest wm = [0, 1]"
    using pl lt camps encs by (simp add: upt_rec)
  moreover have "poi_type (poiStore wm 0) = poi_town \<and> poi_type (poiStore wm 1) = poi_town"
    using ps tp ab camps encs by simp
  moreover have "resourceNodes wm = [0]" using rn ln by simp
  ultimately show ?thesis using wm wh cfg by (intro exI[where x = wm]) simp
qed

text \<open>
  C8. In a world that \<open>generateWorld\<close> returns, two different points of interest that are
  towns lie at Manhattan distance \<open>8\<close> or more, for every configuration, seed stream and
  noise function.
\<close>

theorem towns_spaced:
  assumes "generateWorld seedrandom noise config = Some wm"
    and "a \<in> set (pointsOfInterest wm)" and "b \<in> set (pointsOfInterest wm)" and "a \<noteq> b"
    and "poi_type (poiStore wm a) = poi_town" and "poi_type (poiStore wm b) = poi_town"
  shows "8 \<le> manhattanDistance (poi_position (poiStore wm a)) (poi_position (poiStore wm b))"
proof -
  from generateWorld_parts[OF assms(1)] obtain towns camps encs where
    st: "poiStore wm = (\<lambda>a. (towns @ camps @ encs) ! a)"
    and ps: "pointsOfInterest wm = [0 ..< length (towns @ camps @ encs)]"
    and sp: "spaced towns"
    and cp: "\<forall>t \<in> set camps. poi_type t = poi_enemy_camp"
    and ep: "\<forall>t \<in> set encs. poi_type t = poi_neutral_encounter"
    by blast
  have town_index: "i < length towns"
    if "i < length (towns @ camps @ encs)" and "poi_type ((towns @ camps @ encs) ! i) = poi_town"
    for i
  proof (rule ccontr)
    assume "\<not> i < length towns"
    then have "(towns @ camps @ encs) ! i = (camps @ encs) ! (i - length towns)"
      and "i - length towns < length (camps @ encs)"
      using that(1) by (simp_all add: nth_append)
    then have "(towns @ camps @ encs) ! i \<in> set (camps @ encs)"
      by (metis nth_mem)
    with cp ep that(2) show False by auto
  qed
  from assms(2,3) ps have "a < length (towns @ camps @ encs)" "b < length (towns @ camps @ encs)"
    by simp_all
  with assms(5,6) st have "a < length towns" "b < length towns"
    using town_index by simp_all
  with sp assms(4) show ?thesis by (simp add: st spaced_def nth_append)
qed

theorem towns_spaced_witness:
  "\<exists>wm. generateWorld zeroDraws flatNoise demoConfig = Some wm
     \<and> 0 \<in> set (pointsOfInterest wm) \<and> 1 \<in> set (pointsOfInterest wm)
     \<and> poi_type (poiStore wm 0) = poi_town \<and> poi_type (poiStore wm 1) = poi_town
     \<and> 8 \<le> manhattanDistance (poi_position (poiStore wm 0)) (poi_position (poiStore wm 1))"
proof -
  from demo_world obtain wm where
    g: "generateWorld zeroDraws flatNoise demoConfig = Some wm"
    and l: "pointsOfInterest wm = [0, 1]"
    and t: "poi_type (poiStore wm 0) = poi_town" "poi_type (poiStore wm 1) = poi_town"
    by blast
  from l have m: "0 \<in> set (pointsOfInterest wm)" "1 \<in> set (pointsOfInterest wm)" by simp_all
  have ne: "(0 :: nat) \<noteq> 1" by simp
  from towns_spaced[OF g m ne t] g m t show ?thesis
    by (intro exI[where x = wm] conjI) assumption+
qed

text \<open>
  C10. In a world that \<open>generateWorld\<close> returns, every point of interest (town, enemy camp,
  neutral encounter) and every resource node is inside the border of the map:
  \<open>1 \<le> x \<le> width - 2\<close> and \<open>1 \<le> y \<le> height - 2\<close>.
\<close>

theorem placed_inside_border:
  assumes "generateWorld seedrandom noise config = Some wm"
  shows "(\<forall>a \<in> set (pointsOfInterest wm).
            insideBorder (width wm) (height wm) (poi_position (poiStore wm a)))
       \<and> (\<forall>a \<in> set (resourceNodes wm).
            insideBorder (width wm) (height wm) (node_position (nodeStore wm a)))"
proof -
  from generateWorld_parts[OF assms(1)] obtain towns camps encs nodes where
    st: "poiStore wm = (\<lambda>a. (towns @ camps @ encs) ! a)"
    and ps: "pointsOfInterest wm = [0 ..< length (towns @ camps @ encs)]"
    and ns: "nodeStore wm = (\<lambda>a. nodes ! a)"
    and rn: "resourceNodes wm = [0 ..< length nodes]"
    and wh: "width wm = cfg_width config" "height wm = cfg_height config"
    and tp: "\<forall>t \<in> set towns. insideBorder (cfg_width config) (cfg_height config) (poi_position t)"
    and cp: "\<forall>t \<in> set camps. insideBorder (cfg_width config) (cfg_height config) (poi_position t)"
    and ep: "\<forall>t \<in> set encs. insideBorder (cfg_width config) (cfg_height config) (poi_position t)"
    and np: "\<forall>n \<in> set nodes. insideBorder (cfg_width config) (cfg_height config) (node_position n)"
    by blast
  have all: "\<forall>t \<in> set (towns @ camps @ encs).
               insideBorder (cfg_width config) (cfg_height config) (poi_position t)"
    using tp cp ep by auto
  show ?thesis
  proof (intro conjI ballI)
    fix a
    assume "a \<in> set (pointsOfInterest wm)"
    then have "a < length (towns @ camps @ encs)" using ps by simp
    then have "(towns @ camps @ encs) ! a \<in> set (towns @ camps @ encs)" by (rule nth_mem)
    with all show "insideBorder (width wm) (height wm) (poi_position (poiStore wm a))"
      by (simp add: st wh)
  next
    fix a
    assume "a \<in> set (resourceNodes wm)"
    then have "a < length nodes" using rn by simp
    then have "nodes ! a \<in> set nodes" by (rule nth_mem)
    with np show "insideBorder (width wm) (height wm) (node_position (nodeStore wm a))"
      by (simp add: ns wh)
  qed
qed

theorem placed_inside_border_witness:
  "\<exists>wm. generateWorld zeroDraws flatNoise demoConfig = Some wm
     \<and> width wm = 20 \<and> height wm = 3
     \<and> pointsOfInterest wm = [0, 1] \<and> resourceNodes wm = [0]
     \<and> insideBorder 20 3 (poi_position (poiStore wm 0))
     \<and> insideBorder 20 3 (poi_position (poiStore wm 1))
     \<and> insideBorder 20 3 (node_position (nodeStore wm 0))"
proof -
  from demo_world obtain wm where
    g: "generateWorld zeroDraws flatNoise demoConfig = Some wm"
    and l: "pointsOfInterest wm = [0, 1]" and r: "resourceNodes wm = [0]"
    and wh: "width wm = 20" "height wm = 3"
    by blast
  from placed_inside_border[OF g] l r wh
  have "insideBorder 20 3 (poi_position (poiStore wm 0))
     \<and> insideBorder 20 3 (poi_position (poiStore wm 1))
     \<and> insideBorder 20 3 (node_position (nodeStore wm 0))"
    by simp
  with g wh l r show ?thesis by (intro exI[where x = wm]) simp
qed

subsection \<open>Treasuries\<close>

lemma treasuries_map: "treasuriesNonneg s \<longleftrightarrow> list_all nonneg (map resources (factions s))"
  by (simp add: treasuriesNonneg_def list_all_iff)

lemma createInitialFactions_facts:
  "map resources (createInitialFactions wm rng)
     = [\<lparr>gold = 1000, wood = 200, stone = 100, crystals = 50\<rparr>,
        \<lparr>gold = 800, wood = 150, stone = 80, crystals = 30\<rparr>]"
  "map faction_id (createInitialFactions wm rng) = [player, enemy_1]"
  by (simp_all add: createInitialFactions_def Let_def split_beta)

lemma initGame_total: "\<exists>s. initGame seedrandom noise now config s0 = Some s"
proof -
  let ?cfg = "(getDefaultWorldGenConfig (Some (seedOr (gameSeed config) now)) now)
                \<lparr>cfg_width := sizeOr (mapWidth config), cfg_height := sizeOr (mapHeight config)\<rparr>"
  from generateWorld_total[of seedrandom noise ?cfg] obtain wm where
    "generateWorld seedrandom noise ?cfg = Some wm" by blast
  then show ?thesis by (simp add: initGame_def Let_def)
qed

lemma initGame_facts:
  assumes "initGame seedrandom noise now config s0 = Some s"
  shows "map resources (factions s)
           = [\<lparr>gold = 1000, wood = 200, stone = 100, crystals = 50\<rparr>,
              \<lparr>gold = 800, wood = 150, stone = 80, crystals = 30\<rparr>]"
    and "map faction_id (factions s) = [player, enemy_1]"
    and "noOwnedNodes (worldMap s)"
proof -
  let ?cfg = "(getDefaultWorldGenConfig (Some (seedOr (gameSeed config) now)) now)
                \<lparr>cfg_width := sizeOr (mapWidth config), cfg_height := sizeOr (mapHeight config)\<rparr>"
  from assms obtain wm where g: "generateWorld seedrandom noise ?cfg = Some wm"
    and f: "factions s = createInitialFactions wm
                           (newSeededRandom seedrandom (seedOr (gameSeed config) now))"
    and w: "worldMap s = wm"
    by (auto simp: initGame_def Let_def split: option.splits)
  show "map resources (factions s)
           = [\<lparr>gold = 1000, wood = 200, stone = 100, crystals = 50\<rparr>,
              \<lparr>gold = 800, wood = 150, stone = 80, crystals = 30\<rparr>]"
    unfolding f by (rule createInitialFactions_facts)
  show "map faction_id (factions s) = [player, enemy_1]"
    unfolding f by (rule createInitialFactions_facts)
  from generateWorld_parts[OF g] obtain nodes where
    "nodeStore wm = (\<lambda>a. nodes ! a)" "resourceNodes wm = [0 ..< length nodes]"
    "\<forall>n \<in> set nodes. \<not> isOwned n" by blast
  then show "noOwnedNodes (worldMap s)" by (simp add: noOwnedNodes_def w)
qed

lemma update_first_map:
  "(\<And>x. h (g x) = h x) \<Longrightarrow> map h (update_first P g xs) = map h xs"
  by (induction xs) auto

lemma updateHero_map:
  "(\<And>f hs. h (f\<lparr>heroes := hs\<rparr>) = h f) \<Longrightarrow> map h (updateHero hid g fs) = map h fs"
  by (induction fs) auto

lemma update_first_all:
  "list_all Q (map h xs) \<Longrightarrow> (\<And>x. Q (h x) \<Longrightarrow> Q (h (g x)))
   \<Longrightarrow> list_all Q (map h (update_first P g xs))"
  by (induction xs) auto

lemma add_partial_nonneg:
  "nonneg r \<Longrightarrow> amountOk (p_gold q) \<Longrightarrow> amountOk (p_wood q) \<Longrightarrow> amountOk (p_stone q)
   \<Longrightarrow> amountOk (p_crystals q) \<Longrightarrow> nonneg (add_partial q r)"
  by (auto simp: nonneg_def add_partial_def amountOk_def truthy_def split: option.splits)

lemma sub_partial_nonneg: "nonneg r \<Longrightarrow> canAfford r q \<Longrightarrow> nonneg (sub_partial q r)"
  by (auto simp: nonneg_def sub_partial_def canAfford_def covers_def truthy_def
           split: option.splits)

lemma addLoot_nonneg: "nonneg r \<Longrightarrow> nonneg l \<Longrightarrow> nonneg (addLoot l r)"
  by (simp add: nonneg_def addLoot_def)

lemma addResources_inv:
  assumes "treasuriesNonneg s" and "sane (AddResources fid q)"
  shows "treasuriesNonneg (addResources fid q s)" "worldMap (addResources fid q s) = worldMap s"
  using assms
  by (auto simp: treasuries_map addResources_def intro!: update_first_all add_partial_nonneg)

lemma spendResources_inv:
  assumes "treasuriesNonneg s"
  shows "treasuriesNonneg (snd (spendResources fid q s))"
    "worldMap (snd (spendResources fid q s)) = worldMap s"
proof -
  show "worldMap (snd (spendResources fid q s)) = worldMap s"
    by (simp add: spendResources_def split: option.splits)
  show "treasuriesNonneg (snd (spendResources fid q s))"
  proof (cases "getFaction s fid")
    case None
    with assms show ?thesis by (simp add: spendResources_def)
  next
    case (Some F)
    show ?thesis
    proof (cases "canAfford (resources F) q")
      case False
      with Some assms show ?thesis by (simp add: spendResources_def)
    next
      case True
      from Some have fF: "find (\<lambda>f. faction_id f = fid) (factions s) = Some F"
        by (simp add: getFaction_def)
      have "update_first (\<lambda>f. faction_id f = fid)
              (\<lambda>f. f\<lparr>resources := sub_partial q (resources f)\<rparr>) (factions s)
            = (factions s)[nat (findIndex (\<lambda>f. faction_id f = fid) (factions s))
                 := F\<lparr>resources := sub_partial q (resources F)\<rparr>]"
        by (rule update_first_nth[OF fF])
      moreover from find_SomeD[OF fF] assms have "nonneg (resources F)"
        by (simp add: treasuriesNonneg_def)
      then have "nonneg (sub_partial q (resources F))" using True by (rule sub_partial_nonneg)
      ultimately show ?thesis using Some True assms
        by (auto simp: spendResources_def treasuriesNonneg_def dest!: set_update_subset_insert[THEN subsetD])
    qed
  qed
qed


lemma fold_creditNode_unowned:
  "\<forall>n \<in> set nodes. \<not> isOwned n \<Longrightarrow> fold (creditNode fid) nodes r = r"
  by (induction nodes arbitrary: r) (simp_all add: creditNode_def)

lemma collect_unowned: "\<forall>n \<in> set nodes. \<not> isOwned n \<Longrightarrow> collect nodes f = f"
  by (simp add: collect_def fold_creditNode_unowned)

lemma map_collect_unowned: "\<forall>n \<in> set nodes. \<not> isOwned n \<Longrightarrow> map (collect nodes) fs = fs"
  by (induction fs) (simp_all add: collect_unowned)

lemma map_resources_update:
  "n < length fs \<Longrightarrow> map resources (fs[n := (fs ! n)\<lparr>heroes := hs\<rparr>]) = map resources fs"
  by (simp add: map_update list_update_same_conv)

lemma endTurn_inv:
  assumes "noOwnedNodes (worldMap s)" and "endTurn s = Inr (b, s')"
  shows "map resources (factions s') = map resources (factions s)" "worldMap s' = worldMap s"
proof -
  let ?fs = "factions s"
  let ?i = "findIndex (\<lambda>f. faction_id f = currentFaction s) ?fs"
  let ?n = "nat ((?i + 1) mod int (length ?fs))"
  let ?nodes = "map (nodeStore (worldMap s)) (resourceNodes (worldMap s))"
  from assms(2) have ne: "?fs \<noteq> []" by (auto simp: endTurn_def split: if_splits)
  have rng: "- 1 \<le> ?i" "?i < int (length ?fs)" using findIndex_range[of _ ?fs] by auto
  have n_lt: "?n < length ?fs" using ne rng by (simp add: nat_less_iff)
  from assms(1) have un: "\<forall>n \<in> set ?nodes. \<not> isOwned n" by (auto simp: noOwnedNodes_def)
  have c: "map (collect ?nodes) ?fs = ?fs" by (rule map_collect_unowned[OF un])
  from assms(2) ne n_lt
  show "map resources (factions s') = map resources (factions s)"
    unfolding endTurn_def Let_def c
    by (auto simp: map_resources_update split: list.splits if_splits)
  from assms(2) ne show "worldMap s' = worldMap s"
    unfolding endTurn_def Let_def
    by (auto split: list.splits if_splits)
qed

lemma moveHero_inv:
  assumes "moveHero heroId target s = Inr (b, s')"
  shows "map resources (factions s') = map resources (factions s)" "worldMap s' = worldMap s"
  using assms
  by (auto simp: moveHero_def moveHeroSet_def Let_def update_first_map
           split: option.splits if_splits Cost.splits sum.splits)

lemma recruitSet_frame:
  "map resources (factions (recruitSet hero townId ty n now d)) = map resources (factions d)"
  "nodeStore (worldMap (recruitSet hero townId ty n now d)) = nodeStore (worldMap d)"
  "resourceNodes (worldMap (recruitSet hero townId ty n now d)) = resourceNodes (worldMap d)"
  by (simp_all add: recruitSet_def Let_def updateHero_map split: option.splits)

lemma recruitUnit_inv:
  assumes "treasuriesNonneg s" and "recruitUnit townId ty n now s = Inr (b, s')"
  shows "treasuriesNonneg s'" "nodeStore (worldMap s') = nodeStore (worldMap s)"
    "resourceNodes (worldMap s') = resourceNodes (worldMap s)"
proof -
  have "s' = s \<or> (\<exists>fid q. s' = snd (spendResources fid q s))
        \<or> (\<exists>hero fid q. s' = recruitSet hero townId ty n now (snd (spendResources fid q s)))"
  proof -
    have shape: "recruitUnit townId ty n now s = Inr (False, s)
        \<or> recruitUnit townId ty n now s = Inl TypeError
        \<or> (\<exists>hero fid q. recruitUnit townId ty n now s
                  = (case spendResources fid q s of
                       (False, s1) \<Rightarrow> Inr (False, s1)
                     | (True, s1) \<Rightarrow> Inr (True, recruitSet hero townId ty n now s1)))"
      unfolding recruitUnit_def Let_def
      by (simp split: option.splits) blast
    from shape assms(2) consider "s' = s"
      | hero fid q where "recruitUnit townId ty n now s
                  = (case spendResources fid q s of
                       (False, s1) \<Rightarrow> Inr (False, s1)
                     | (True, s1) \<Rightarrow> Inr (True, recruitSet hero townId ty n now s1))"
      by auto
    then show ?thesis
    proof cases
      case 1
      then show ?thesis by simp
    next
      case (2 hero fid q)
      obtain ok s1 where sp: "spendResources fid q s = (ok, s1)"
        by (cases "spendResources fid q s")
      then have s1: "s1 = snd (spendResources fid q s)" by simp
      show ?thesis
      proof (cases ok)
        case True
        with 2 sp assms(2) have "s' = recruitSet hero townId ty n now s1" by simp
        with s1 show ?thesis by blast
      next
        case False
        with 2 sp assms(2) have "s' = s1" by simp
        with s1 show ?thesis by blast
      qed
    qed
  qed
  then show "treasuriesNonneg s'" "nodeStore (worldMap s') = nodeStore (worldMap s)"
    "resourceNodes (worldMap s') = resourceNodes (worldMap s)"
    using assms(1) spendResources_inv[OF assms(1)]
    by (auto simp: treasuries_map recruitSet_frame)
qed

lemma endCombat_inv:
  assumes "treasuriesNonneg s" and "nonneg (resourcesLooted result)"
  shows "treasuriesNonneg (endCombat result s)" "worldMap (endCombat result s) = worldMap s"
proof -
  show "worldMap (endCombat result s) = worldMap s"
    by (simp add: endCombat_def Let_def split: option.splits)
  show "treasuriesNonneg (endCombat result s)"
    using assms
    by (auto simp: endCombat_def Let_def treasuries_map updateHero_map
             intro!: update_first_all addLoot_nonneg split: option.splits)
qed

lemma executeCombatAction_frame:
  "factions (executeCombatAction now action s) = factions s"
  "worldMap (executeCombatAction now action s) = worldMap s"
  by (simp_all add: executeCombatAction_def split: option.splits)

lemma strikeLoop_frame:
  "factions (snd (strikeLoop rnd clock combat enemies own k s)) = factions s
   \<and> worldMap (snd (strikeLoop rnd clock combat enemies own k s)) = worldMap s"
  by (induction own arbitrary: k s) (simp_all add: Let_def executeCombatAction_frame)

lemma autoLoop_frame:
  "factions (autoLoop n rnd clock k s) = factions s
   \<and> worldMap (autoLoop n rnd clock k s) = worldMap s"
proof (induction n arbitrary: k s)
  case 0
  show ?case by simp
next
  case (Suc n)
  show ?case
  proof (cases "combatState s")
    case None
    then show ?thesis by simp
  next
    case (Some combat)
    let ?r1 = "strikeLoop rnd clock combat (defenderUnits combat) (attackerUnits combat) k s"
    show ?thesis
    proof (cases "attackerUnits combat = [] \<or> defenderUnits combat = []")
      case True
      with Some show ?thesis by simp
    next
      case False
      show ?thesis
      proof (cases "combatState (snd ?r1)")
        case None
        with Some False show ?thesis
          using strikeLoop_frame[of rnd clock combat "defenderUnits combat" "attackerUnits combat" k s]
          by (simp add: split_beta)
      next
        case (Some after)
        let ?r2 = "strikeLoop rnd clock after (attackerUnits after) (defenderUnits after)
                     (fst ?r1) (snd ?r1)"
        show ?thesis
          using \<open>combatState s = Some combat\<close> False Some
            strikeLoop_frame[of rnd clock combat "defenderUnits combat" "attackerUnits combat" k s]
            strikeLoop_frame[of rnd clock after "attackerUnits after" "defenderUnits after"
              "fst ?r1" "snd ?r1"]
            Suc.IH[of "fst ?r2" "snd ?r2"]
          by (simp add: split_beta)
      qed
    qed
  qed
qed

lemma runAutoBattle_frame:
  "factions (snd (runAutoBattle rnd clock s)) = factions s"
  "worldMap (snd (runAutoBattle rnd clock s)) = worldMap s"
  by (simp_all add: runAutoBattle_def Let_def autoLoop_frame split: option.splits)

lemma startCombat_frame:
  "factions (startCombat a d s) = factions s" "worldMap (startCombat a d s) = worldMap s"
  by (simp_all add: startCombat_def Let_def split: option.splits sum.splits)

lemma settled_frame:
  "settled s \<Longrightarrow> map resources (factions s') = map resources (factions s)
   \<Longrightarrow> nodeStore (worldMap s') = nodeStore (worldMap s)
   \<Longrightarrow> resourceNodes (worldMap s') = resourceNodes (worldMap s) \<Longrightarrow> settled s'"
  by (simp add: settled_def treasuries_map noOwnedNodes_def)

lemma run_settled:
  assumes "settled s" and "sane c" and "run c s = Some s'"
  shows "settled s'"
proof (cases c)
  case (AddResources fid q)
  with assms addResources_inv[of s fid q] show ?thesis
    by (auto simp: settled_def)
next
  case (SpendResources fid q)
  with assms spendResources_inv[of s fid q] show ?thesis
    by (auto simp: settled_def)
next
  case (RecruitUnit townId ty n now)
  with assms(3) obtain b where "recruitUnit townId ty n now s = Inr (b, s')"
    by (auto split: sum.splits)
  from recruitUnit_inv[OF _ this] assms(1) show ?thesis
    by (auto simp: settled_def noOwnedNodes_def)
next
  case EndTurn
  with assms(3) obtain b where "endTurn s = Inr (b, s')" by (auto split: sum.splits)
  from endTurn_inv[OF _ this] assms(1) show ?thesis
    by (auto simp: settled_def treasuries_map)
next
  case (EndCombat result)
  with assms endCombat_inv[of s result] show ?thesis
    by (auto simp: settled_def)
next
  case (MoveHero heroId target)
  with assms(3) obtain b where "moveHero heroId target s = Inr (b, s')"
    by (auto split: sum.splits)
  from moveHero_inv[OF this] assms(1) show ?thesis
    by (auto intro: settled_frame)
next
  case (SelectHero h)
  with assms show ?thesis by (auto simp: selectHero_def intro: settled_frame)
next
  case (StartCombat a d)
  with assms show ?thesis by (auto simp: startCombat_frame intro: settled_frame)
next
  case (ExecuteCombatAction now action)
  with assms show ?thesis by (auto simp: executeCombatAction_frame intro: settled_frame)
next
  case (RunAutoBattle rnd clock)
  with assms show ?thesis by (auto simp: runAutoBattle_frame intro: settled_frame)
next
  case (EnterTown t)
  with assms show ?thesis by (auto simp: enterTown_def intro: settled_frame split: option.splits)
next
  case LeaveTown
  with assms show ?thesis by (auto simp: leaveTown_def intro: settled_frame)
qed

lemma initGame_settled:
  assumes "initGame seedrandom noise now config s0 = Some s"
  shows "settled s"
  using initGame_facts[OF assms]
  by (simp add: settled_def treasuries_map nonneg_def)

lemma reachable_settled:
  "reachable sane seedrandom noise s \<Longrightarrow> settled s"
  by (induction rule: reachable.induct) (auto intro: initGame_settled run_settled)


lemma demoStart_init: "initGame zeroDraws flatNoise 0 demoSetup initialState = Some demoStart"
proof -
  from initGame_total obtain s where
    "initGame zeroDraws flatNoise 0 demoSetup initialState = Some s" by blast
  then show ?thesis by (simp add: demoStart_def)
qed

lemma demoStart_factions:
  "\<exists>f0 f1. factions demoStart = [f0, f1] \<and> faction_id f0 = player
     \<and> resources f0 = \<lparr>gold = 1000, wood = 200, stone = 100, crystals = 50\<rparr>
     \<and> resources f1 = \<lparr>gold = 800, wood = 150, stone = 80, crystals = 30\<rparr>"
proof -
  from initGame_facts(1,2)[OF demoStart_init]
  have r: "map resources (factions demoStart)
           = [\<lparr>gold = 1000, wood = 200, stone = 100, crystals = 50\<rparr>,
              \<lparr>gold = 800, wood = 150, stone = 80, crystals = 30\<rparr>]"
    and i: "map faction_id (factions demoStart) = [player, enemy_1]" by simp_all
  from i obtain f0 f1 where "factions demoStart = [f0, f1]"
    by (cases "factions demoStart"; cases "tl (factions demoStart)") auto
  with r i show ?thesis by simp
qed

text \<open>
  C7, as stated, after \<open>initGame\<close> and one \<open>addResources\<close> of the six commands, with the
  amount \<open>-2000\<close>: the player's gold is \<open>-1000\<close>.
\<close>

theorem resources_go_negative:
  "reachable listed zeroDraws flatNoise (addResources player (onlyGold (- 2000)) demoStart)
   \<and> faction_id (factions (addResources player (onlyGold (- 2000)) demoStart) ! 0) = player
   \<and> gold (resources (factions (addResources player (onlyGold (- 2000)) demoStart) ! 0))
       = - 1000
   \<and> \<not> treasuriesNonneg (addResources player (onlyGold (- 2000)) demoStart)"
proof -
  let ?s = "addResources player (onlyGold (- 2000)) demoStart"
  have "reachable listed zeroDraws flatNoise demoStart"
    by (rule reachable.init[OF demoStart_init])
  then have r: "reachable listed zeroDraws flatNoise ?s"
    by (rule reachable.step[where c = "AddResources player (onlyGold (- 2000))"]) simp_all
  from demoStart_factions obtain f0 f1 where f: "factions demoStart = [f0, f1]"
    "faction_id f0 = player"
    "resources f0 = \<lparr>gold = 1000, wood = 200, stone = 100, crystals = 50\<rparr>" by blast
  then have v: "faction_id (factions ?s ! 0) = player"
    "gold (resources (factions ?s ! 0)) = - 1000"
    by (simp_all add: addResources_def add_partial_def truthy_def onlyGold_def)
  from f have m: "factions ?s ! 0 \<in> set (factions ?s)" by (simp add: addResources_def)
  have n: "\<not> treasuriesNonneg ?s"
  proof
    assume "treasuriesNonneg ?s"
    with m have "nonneg (resources (factions ?s ! 0))" unfolding treasuriesNonneg_def by blast
    with v(2) show False by (simp add: nonneg_def)
  qed
  from r v n show ?thesis by (intro conjI) assumption+
qed

text \<open>
  C7. In every state reached from \<open>initGame\<close> by commands of the store, the six that
  \<open>listed\<close> names and the others, none of which is an \<open>addResources\<close> with a negative
  amount or an \<open>endCombat\<close> with a negative loot, every faction has no negative gold, wood,
  stone or crystals; the other arguments of the commands are arbitrary.
\<close>

theorem resources_stay_nonneg:
  assumes "reachable sane seedrandom noise s" and "f \<in> set (factions s)"
  shows "0 \<le> gold (resources f) \<and> 0 \<le> wood (resources f)
       \<and> 0 \<le> stone (resources f) \<and> 0 \<le> crystals (resources f)"
  using reachable_settled[OF assms(1)] assms(2)
  by (simp add: settled_def treasuriesNonneg_def nonneg_def)

theorem resources_stay_nonneg_witness:
  "reachable sane zeroDraws flatNoise
     (snd (spendResources player (onlyGold 300) (addResources player (onlyGold 50) demoStart)))
   \<and> length (factions
        (snd (spendResources player (onlyGold 300) (addResources player (onlyGold 50) demoStart))))
       = 2
   \<and> gold (resources (factions
        (snd (spendResources player (onlyGold 300) (addResources player (onlyGold 50) demoStart)))
          ! 0)) = 750
   \<and> 0 \<le> gold (resources (factions
        (snd (spendResources player (onlyGold 300) (addResources player (onlyGold 50) demoStart)))
          ! 0))"
proof -
  let ?s1 = "addResources player (onlyGold 50) demoStart"
  let ?s2 = "snd (spendResources player (onlyGold 300) ?s1)"
  have "reachable sane zeroDraws flatNoise demoStart"
    by (rule reachable.init[OF demoStart_init])
  then have "reachable sane zeroDraws flatNoise ?s1"
    by (rule reachable.step[where c = "AddResources player (onlyGold 50)"])
       (simp_all add: onlyGold_def amountOk_def)
  then have r: "reachable sane zeroDraws flatNoise ?s2"
    by (rule reachable.step[where c = "SpendResources player (onlyGold 300)"]) simp_all
  from demoStart_factions obtain f0 f1 where f: "factions demoStart = [f0, f1]"
    "faction_id f0 = player"
    "resources f0 = \<lparr>gold = 1000, wood = 200, stone = 100, crystals = 50\<rparr>" by blast
  then have v: "length (factions ?s2) = 2" "gold (resources (factions ?s2 ! 0)) = 750"
    by (simp_all add: addResources_def add_partial_def truthy_def onlyGold_def
          spendResources_def getFaction_def canAfford_def covers_def sub_partial_def)
  then have m: "factions ?s2 ! 0 \<in> set (factions ?s2)" by simp
  from resources_stay_nonneg[OF r m] have "0 \<le> gold (resources (factions ?s2 ! 0))" by simp
  with r v show ?thesis by (intro conjI) assumption+
qed

subsection \<open>What a command reads from outside the state\<close>

lemma splice1_length: "length (splice1 i xs) \<le> length xs"
  by (simp add: splice1_def Let_def)

lemma attackAction_lengths:
  "length (attackerUnits (attackAction now a t cs)) \<le> length (attackerUnits cs)"
  "length (defenderUnits (attackAction now a t cs)) \<le> length (defenderUnits cs)"
  by (simp_all add: attackAction_def Let_def updUnit_def splice1_length)

lemma applyAction_lengths:
  "length (attackerUnits (applyAction now action a cs)) \<le> length (attackerUnits cs)"
  "length (defenderUnits (applyAction now action a cs)) \<le> length (defenderUnits cs)"
  by (simp_all add: applyAction_def attackAction_lengths updUnit_def
        split: ActionType.splits option.splits)

lemma executeCombatAction_duel: "duel s \<Longrightarrow> duel (executeCombatAction now action s)"
proof -
  assume d: "duel s"
  show ?thesis
  proof (cases "combatState s")
    case None
    then show ?thesis by (simp add: executeCombatAction_def duel_def)
  next
    case (Some cs)
    show ?thesis
    proof (cases "findUnit cs (sourceUnit action)")
      case None
      with Some d show ?thesis by (simp add: executeCombatAction_def duel_def)
    next
      case (Some a)
      with \<open>combatState s = Some cs\<close> d
        applyAction_lengths[of now action a cs]
      show ?thesis
        by (auto simp: executeCombatAction_def duel_def finishAction_frame)
    qed
  qed
qed

lemma draw_index: "length xs \<le> 1 \<Longrightarrow> nat \<lfloor>draw_value r * of_nat (length xs)\<rfloor> = 0"
proof -
  assume "length xs \<le> 1"
  then consider "length xs = 0" | "length xs = 1" by linarith
  then show ?thesis
  proof cases
    case 1
    then show ?thesis by simp
  next
    case 2
    have "0 \<le> draw_value r" "draw_value r < 1" using draw_value[of r] by auto
    then have "\<lfloor>draw_value r\<rfloor> = 0" by (simp add: floor_eq_iff)
    with 2 show ?thesis by simp
  qed
qed

lemma strikeLoop_duel:
  assumes "length enemies \<le> 1"
  shows "strikeLoop rnd clock combat enemies own k s = strikeLoop rnd' clock combat enemies own k s"
  using assms
  by (induction own arbitrary: k s) (simp_all add: Let_def draw_index)

lemma strikeLoop_keeps_duel:
  "duel s \<Longrightarrow> duel (snd (strikeLoop rnd clock combat enemies own k s))"
  by (induction own arbitrary: k s) (simp_all add: Let_def executeCombatAction_duel)

lemma autoLoop_duel:
  assumes "duel s"
  shows "autoLoop n rnd clock k s = autoLoop n rnd' clock k s"
  using assms
proof (induction n arbitrary: k s)
  case 0
  show ?case by simp
next
  case (Suc n)
  show ?case
  proof (cases "combatState s")
    case None
    then show ?thesis by simp
  next
    case (Some combat)
    with Suc.prems have l: "length (attackerUnits combat) \<le> 1" "length (defenderUnits combat) \<le> 1"
      by (simp_all add: duel_def)
    let ?r1 = "strikeLoop rnd clock combat (defenderUnits combat) (attackerUnits combat) k s"
    have e1: "strikeLoop rnd' clock combat (defenderUnits combat) (attackerUnits combat) k s = ?r1"
      by (rule strikeLoop_duel[OF l(2), symmetric])
    have d1: "duel (snd ?r1)" by (rule strikeLoop_keeps_duel[OF Suc.prems])
    show ?thesis
    proof (cases "combatState (snd ?r1)")
      case None
      with Some e1 show ?thesis by (simp add: split_beta)
    next
      case after: (Some combatAfterAttack)
      with d1 have l2: "length (attackerUnits combatAfterAttack) \<le> 1"
        by (simp add: duel_def)
      let ?r2 = "strikeLoop rnd clock combatAfterAttack (attackerUnits combatAfterAttack)
                   (defenderUnits combatAfterAttack) (fst ?r1) (snd ?r1)"
      have e2: "strikeLoop rnd' clock combatAfterAttack (attackerUnits combatAfterAttack)
                   (defenderUnits combatAfterAttack) (fst ?r1) (snd ?r1) = ?r2"
        by (rule strikeLoop_duel[OF l2, symmetric])
      have d2: "duel (snd ?r2)" by (rule strikeLoop_keeps_duel[OF d1])
      from Suc.IH[OF d2, of "fst ?r2"] Some after e1 e2 show ?thesis
        by (simp add: split_beta)
    qed
  qed
qed

lemma initGame_clock:
  assumes "gameSeed config = Some sd" and "sd \<noteq> []"
  shows "initGame seedrandom noise now config s = initGame seedrandom noise now' config s"
  using assms
  by (simp add: initGame_def seedOr_def getDefaultWorldGenConfig_def Let_def)

lemma attackAction_clock:
  "untimedLog (attackAction now a t cs) = untimedLog (attackAction now' a t cs)"
  by (simp add: attackAction_def Let_def updUnit_def untimedLog_def)

lemma applyAction_clock:
  "untimedLog (applyAction now action a cs) = untimedLog (applyAction now' action a cs)"
  by (simp add: applyAction_def attackAction_clock split: ActionType.splits option.splits)

lemma finishAction_log:
  "finishAction a (cs\<lparr>combatLog := l\<rparr>) = (finishAction a cs)\<lparr>combatLog := l\<rparr>"
  by (rule CombatState.equality)
     (simp_all add: finishAction_def Let_def updUnit_def resetRound_def allActed_def
        split: option.splits)

lemma finishAction_untimedLog: "untimedLog (finishAction a cs) = finishAction a (untimedLog cs)"
  by (simp add: untimedLog_def finishAction_log finishAction_frame)

lemma executeCombatAction_clock:
  "untimed (executeCombatAction now action s) = untimed (executeCombatAction now' action s)"
proof (cases "combatState s")
  case None
  then show ?thesis by (simp add: executeCombatAction_def)
next
  case (Some cs)
  show ?thesis
  proof (cases "findUnit cs (sourceUnit action)")
    case None
    with Some show ?thesis by (simp add: executeCombatAction_def)
  next
    case src: (Some a)
    show ?thesis
    proof (cases "hasActed (units cs a)")
      case True
      with Some src show ?thesis by (simp add: executeCombatAction_def)
    next
      case False
      have "untimedLog (finishAction a (applyAction now action a cs))
              = untimedLog (finishAction a (applyAction now' action a cs))"
        by (simp only: finishAction_untimedLog applyAction_clock[of now action a cs now'])
      with Some src False show ?thesis
        by (simp add: executeCombatAction_def untimed_def untimedLog_def)
    qed
  qed
qed

text \<open>
  C6, as stated, at the example battle: with the draws all \<open>0\<close> the ten warriors strike the
  cavalry and the attacker wins, with the draws all \<open>1/2\<close> they strike the healer, the
  cavalry strikes back and the defender wins. Same state, same clock, two results.
\<close>

theorem autoBattle_depends_on_draws:
  "map_option result_winner (fst (runAutoBattle lowDraws stillClock demoBattle))
     = Some attacker_wins
   \<and> map_option result_winner (fst (runAutoBattle midDraws stillClock demoBattle))
     = Some defender_wins"
  by code_simp

text \<open>
  C6. What enters a command from outside the state and its arguments is a parameter of its
  model: the clock for \<open>initGame\<close>, \<open>executeCombatAction\<close>, \<open>recruitUnit\<close> and
  \<open>runAutoBattle\<close>, the draws of \<open>Math.random\<close> for \<open>runAutoBattle\<close>, and nothing for the
  other commands. \<open>initGame\<close> with a seed that is given and not empty builds the same state
  whatever the clock reads; \<open>executeCombatAction\<close> builds the same state, up to the
  timestamp of the log entry, whatever the clock reads; \<open>runAutoBattle\<close> in a duel returns
  the same result and the same state whatever the draws are.
\<close>

theorem deterministic_apart_from_choice:
  "(\<forall>sd. gameSeed config = Some sd \<and> sd \<noteq> []
      \<longrightarrow> initGame seedrandom noise now config s = initGame seedrandom noise now' config s)
   \<and> untimed (executeCombatAction now action s) = untimed (executeCombatAction now' action s)
   \<and> (duel s \<longrightarrow> runAutoBattle rnd clock s = runAutoBattle rnd' clock s)"
proof (intro conjI allI impI)
  show "untimed (executeCombatAction now action s) = untimed (executeCombatAction now' action s)"
    by (rule executeCombatAction_clock)
next
  fix sd
  assume "gameSeed config = Some sd \<and> sd \<noteq> []"
  then show "initGame seedrandom noise now config s = initGame seedrandom noise now' config s"
    using initGame_clock by blast
next
  assume "duel s"
  then have eq: "autoLoop 20 rnd clock 0 s = autoLoop 20 rnd' clock 0 s" by (rule autoLoop_duel)
  show "runAutoBattle rnd clock s = runAutoBattle rnd' clock s"
    unfolding runAutoBattle_def eq by (rule refl)
qed

lemma demoDuel_result:
  "map_option result_winner (fst (runAutoBattle lowDraws stillClock demoDuel))
     = Some attacker_wins"
  by code_simp

theorem deterministic_apart_from_choice_witness:
  "gameSeed demoSetup = Some ''demo'' \<and> ''demo'' \<noteq> []
   \<and> initGame zeroDraws flatNoise 0 demoSetup initialState
       = initGame zeroDraws flatNoise 1 demoSetup initialState
   \<and> untimed (executeCombatAction 7 (attackOn ''unit_a'' ''unit_c'') demoBattle)
       = untimed (executeCombatAction 8 (attackOn ''unit_a'' ''unit_c'') demoBattle)
   \<and> duel demoDuel
   \<and> runAutoBattle lowDraws stillClock demoDuel = runAutoBattle midDraws stillClock demoDuel
   \<and> map_option result_winner (fst (runAutoBattle midDraws stillClock demoDuel))
       = Some attacker_wins"
proof -
  have h1: "gameSeed demoSetup = Some ''demo'' \<and> ''demo'' \<noteq> []" by (simp add: demoSetup_def)
  have h2: "duel demoDuel" by (simp add: duel_def demoDuel_def demoCombat_def)
  from deterministic_apart_from_choice[where config = demoSetup and seedrandom = zeroDraws
         and noise = flatNoise and now = 0 and now' = 1 and s = initialState]
       deterministic_apart_from_choice[where s = demoDuel and rnd = lowDraws
         and clock = stillClock and rnd' = midDraws] h1 h2
  have a: "initGame zeroDraws flatNoise 0 demoSetup initialState
             = initGame zeroDraws flatNoise 1 demoSetup initialState"
    and b: "runAutoBattle lowDraws stillClock demoDuel = runAutoBattle midDraws stillClock demoDuel"
    by blast+
  from deterministic_apart_from_choice[where s = demoBattle and now = 7 and now' = 8
         and action = "attackOn ''unit_a'' ''unit_c''"]
  have u: "untimed (executeCombatAction 7 (attackOn ''unit_a'' ''unit_c'') demoBattle)
       = untimed (executeCombatAction 8 (attackOn ''unit_a'' ''unit_c'') demoBattle)"
    by blast
  from b demoDuel_result
  have c: "map_option result_winner (fst (runAutoBattle midDraws stillClock demoDuel))
             = Some attacker_wins" by simp
  from h1 have h1a: "gameSeed demoSetup = Some ''demo''" and h1b: "''demo'' \<noteq> []"
    by simp_all
  from h1a h1b a u h2 b c show ?thesis by (intro conjI) assumption+
qed

subsection \<open>The states that a run reaches\<close>

text \<open>
  Every state reached from \<open>initGame\<close>, by whatever commands, has tiles without negative
  costs and a consistent roster: the generator takes the costs from \<open>TERRAIN_COSTS\<close>, and no
  command changes a tile, a faction id or the faction of a hero.
\<close>

lemma terrain_cost_ok: "TERRAIN_COSTS tr = Finite k \<Longrightarrow> 0 \<le> k"
  by (cases tr) auto

lemma makeTile_ok: "costOk (makeTile f m y x)"
  by (auto simp: costOk_def makeTile_def Let_def dest: terrain_cost_ok)

lemma generateTerrain_ok: "tilesOk (fst (generateTerrain w h f rng))"
  by (auto simp: tilesOk_def generateTerrain_def Let_def split_beta makeTile_ok)

lemma setTile_ok:
  assumes "tilesOk ts" and "\<And>t. costOk t \<Longrightarrow> costOk (f t)" and "setTile p f ts = Some ts'"
  shows "tilesOk ts'"
proof -
  from assms(3) obtain t where t: "tileAt ts p = Some t"
    and ts': "ts' = ts[nat (snd p) := (ts ! nat (snd p))[nat (fst p) := f t]]"
    by (auto simp: setTile_def split: option.splits)
  from tileAt_in_rows[OF t] assms(1) have "costOk t" by (auto simp: tilesOk_def)
  then have ft: "costOk (f t)" by (rule assms(2))
  from t have i: "nat (snd p) < length ts" by (auto simp: tileAt_def split: if_splits)
  then have row: "ts ! nat (snd p) \<in> set ts" by (rule nth_mem)
  have new: "\<forall>x \<in> set ((ts ! nat (snd p))[nat (fst p) := f t]). costOk x"
  proof
    fix x assume "x \<in> set ((ts ! nat (snd p))[nat (fst p) := f t])"
    then have "x \<in> insert (f t) (set (ts ! nat (snd p)))"
      using set_update_subset_insert by fastforce
    with ft row assms(1) show "costOk x" by (auto simp: tilesOk_def)
  qed
  show ?thesis unfolding tilesOk_def
  proof
    fix r assume "r \<in> set ts'"
    then have "r \<in> insert ((ts ! nat (snd p))[nat (fst p) := f t]) (set ts)"
      unfolding ts' using set_update_subset_insert by fastforce
    with new assms(1) show "\<forall>x \<in> set r. costOk x" by (auto simp: tilesOk_def)
  qed
qed

lemma carve_ok: "costOk t \<Longrightarrow> costOk (carve t)"
  by (simp add: costOk_def carve_def)

lemma attachPois_ok: "tilesOk ts \<Longrightarrow> attachPois ps ts = Some ts' \<Longrightarrow> tilesOk ts'"
proof (induction ps ts rule: attachPois.induct)
  case (1 ts)
  then show ?case by simp
next
  case (2 a poi rest ts)
  from "2.prems"(2) obtain ts1 where
    s: "setTile (poi_position poi) (\<lambda>t. t\<lparr>pointOfInterest := Some a\<rparr>) ts = Some ts1"
    and r: "attachPois rest ts1 = Some ts'"
    by (auto split: option.splits)
  have "tilesOk ts1" by (rule setTile_ok[OF "2.prems"(1) _ s]) (simp add: costOk_def)
  from "2.IH"[OF s this r] show ?case .
qed

lemma attachNodes_ok: "tilesOk ts \<Longrightarrow> attachNodes ps ts = Some ts' \<Longrightarrow> tilesOk ts'"
proof (induction ps ts rule: attachNodes.induct)
  case (1 ts)
  then show ?case by simp
next
  case (2 a node rest ts)
  from "2.prems"(2) obtain ts1 where
    s: "setTile (node_position node) (\<lambda>t. t\<lparr>resourceNode := Some a\<rparr>) ts = Some ts1"
    and r: "attachNodes rest ts1 = Some ts'"
    by (auto split: option.splits)
  have "tilesOk ts1" by (rule setTile_ok[OF "2.prems"(1) _ s]) (simp add: costOk_def)
  from "2.IH"[OF s this r] show ?case .
qed

lemma walkRoad_ok:
  assumes "walkRoad ts cur dest rng = Some r"
  shows "tilesOk ts \<longrightarrow> tilesOk (fst r)"
proof (rule walkRoad.raw_induct[where P = "\<lambda>ts cur dest rng r. tilesOk ts \<longrightarrow> tilesOk (fst r)",
         OF _ assms])
  fix walk ts cur dest rng r
  assume 1: "\<And>ts cur dest rng r. walk ts cur dest rng = Some r \<Longrightarrow> tilesOk ts \<longrightarrow> tilesOk (fst r)"
    "(if fst cur \<noteq> fst dest \<or> snd cur \<noteq> snd dest
      then case setTile cur carve ts of None \<Rightarrow> None
           | Some ts' \<Rightarrow>
               walk ts' (clampToMap ts' (roadStep (fst (chance (3 / 5) rng)) cur dest))
                 dest (snd (chance (3 / 5) rng))
      else Some (ts, rng)) = Some r"
  show "tilesOk ts \<longrightarrow> tilesOk (fst r)"
  proof (cases "fst cur \<noteq> fst dest \<or> snd cur \<noteq> snd dest")
    case False
    with 1(2) show ?thesis by auto
  next
    case True
    with 1(2) obtain ts1 where s: "setTile cur carve ts = Some ts1"
      and rec: "walk ts1 (clampToMap ts1 (roadStep (fst (chance (3 / 5) rng)) cur dest)) dest
                  (snd (chance (3 / 5) rng)) = Some r"
      by (auto split: option.splits)
    show ?thesis
    proof
      assume "tilesOk ts"
      then have "tilesOk ts1" by (rule setTile_ok[OF _ carve_ok s])
      with 1(1)[OF rec] show "tilesOk (fst r)" by simp
    qed
  qed
qed

lemma roadsLoop_ok:
  "tilesOk ts \<Longrightarrow> roadsLoop ts towns rng = Some r \<Longrightarrow> tilesOk (fst r)"
proof (induction towns arbitrary: ts rng)
  case Nil
  then show ?case by auto
next
  case (Cons a more)
  show ?case
  proof (cases more)
    case Nil
    with Cons.prems show ?thesis by auto
  next
    case (Cons b rest)
    with Cons.prems(2) obtain ts1 rng1 where
      w: "walkRoad ts (poi_position a) (poi_position b) rng = Some (ts1, rng1)"
      and r: "roadsLoop ts1 more rng1 = Some r"
      by (auto split: option.splits)
    from walkRoad_ok[OF w] Cons.prems(1) have "tilesOk ts1" by simp
    from Cons.IH[OF this r] show ?thesis .
  qed
qed

lemma generateWorld_ok:
  assumes "generateWorld seedrandom noise config = Some wm"
  shows "tilesOk (tiles wm)"
proof -
  let ?rng0 = "newSeededRandom seedrandom (cfg_seed config)"
  obtain table rng1 where n: "newSimplexNoise ?rng0 = (table, rng1)"
    by (cases "newSimplexNoise ?rng0")
  obtain ts0 rng2 where
    t: "generateTerrain (cfg_width config) (cfg_height config) (noise table) rng1 = (ts0, rng2)"
    by (cases "generateTerrain (cfg_width config) (cfg_height config) (noise table) rng1")
  from assms n t obtain ps ns ts1 ts2 towns rng6 r where
    a1: "attachPois ps ts0 = Some ts1" and a2: "attachNodes ns ts1 = Some ts2"
    and rd: "generateRoads ts2 towns rng6 = Some r" and wm: "tiles wm = fst r"
    by (auto simp: generateWorld_def Let_def split: Option.bind_splits)
  have "tilesOk ts0" using generateTerrain_ok[of "cfg_width config" "cfg_height config"
                             "noise table" rng1] t by simp
  then have "tilesOk ts1" using a1 by (rule attachPois_ok)
  then have "tilesOk ts2" using a2 by (rule attachNodes_ok)
  then have "tilesOk (fst r)" using rd unfolding generateRoads_def by (rule roadsLoop_ok)
  with wm show ?thesis by simp
qed

lemma tilesOk_costsNonneg: "tilesOk (tiles (worldMap s)) \<Longrightarrow> costsNonneg s"
  by (rule costsNonneg_tiles) (auto simp: tilesOk_def costOk_def)

lemma rosterConsistent_shape:
  "rosterConsistent fs \<longleftrightarrow>
     distinct (map fst (shape fs)) \<and> (\<forall>e \<in> set (shape fs). \<forall>x \<in> set (snd e). x = fst e)"
  by (auto simp: rosterConsistent_def shape_def comp_def)

lemma shape_rosterConsistent:
  "shape fs' = shape fs \<Longrightarrow> rosterConsistent fs \<Longrightarrow> rosterConsistent fs'"
  by (simp add: rosterConsistent_shape)

lemma shape_update_first:
  "(\<And>f. faction_id (g f) = faction_id f \<and> map factionId (heroes (g f)) = map factionId (heroes f))
   \<Longrightarrow> shape (update_first P g fs) = shape fs"
  unfolding shape_def by (rule update_first_map) simp

lemma shape_updateHero:
  "(\<And>x. factionId (g x) = factionId x) \<Longrightarrow> shape (updateHero hid g fs) = shape fs"
  by (induction fs) (simp_all add: shape_def update_first_map)

lemma shape_map:
  "(\<And>f. faction_id (g f) = faction_id f \<and> map factionId (heroes (g f)) = map factionId (heroes f))
   \<Longrightarrow> shape (map g fs) = shape fs"
  by (simp add: shape_def)

lemma shape_update:
  "n < length fs \<Longrightarrow> shape (fs[n := (fs ! n)\<lparr>heroes := map g (heroes (fs ! n))\<rparr>])
     = (shape fs)[n := (faction_id (fs ! n), map (factionId \<circ> g) (heroes (fs ! n)))]"
  by (simp add: shape_def map_update)

lemma createInitialFactions_consistent: "rosterConsistent (createInitialFactions wm rng)"
  by (simp add: rosterConsistent_def createInitialFactions_def createInitialHero_def Let_def
        split_beta)

lemma addResources_shape:
  "shape (factions (addResources fid q s)) = shape (factions s)"
  "worldMap (addResources fid q s) = worldMap s"
  by (simp_all add: addResources_def shape_update_first)

lemma spendResources_shape:
  "shape (factions (snd (spendResources fid q s))) = shape (factions s)"
  "worldMap (snd (spendResources fid q s)) = worldMap s"
  by (simp_all add: spendResources_def shape_update_first split: option.splits)

lemma recruitSet_shape:
  "shape (factions (recruitSet hero townId ty n now d)) = shape (factions d)"
  "tiles (worldMap (recruitSet hero townId ty n now d)) = tiles (worldMap d)"
  by (simp_all add: recruitSet_def Let_def shape_updateHero split: option.splits)

lemma recruitUnit_shape:
  assumes "recruitUnit townId ty n now s = Inr (b, s')"
  shows "shape (factions s') = shape (factions s)" "tiles (worldMap s') = tiles (worldMap s)"
proof -
  have shape': "recruitUnit townId ty n now s = Inr (False, s)
        \<or> recruitUnit townId ty n now s = Inl TypeError
        \<or> (\<exists>hero fid q. recruitUnit townId ty n now s
                  = (case spendResources fid q s of
                       (False, s1) \<Rightarrow> Inr (False, s1)
                     | (True, s1) \<Rightarrow> Inr (True, recruitSet hero townId ty n now s1)))"
    unfolding recruitUnit_def Let_def
    by (simp split: option.splits) blast
  from shape' assms consider "s' = s"
    | hero fid q where "recruitUnit townId ty n now s
                  = (case spendResources fid q s of
                       (False, s1) \<Rightarrow> Inr (False, s1)
                     | (True, s1) \<Rightarrow> Inr (True, recruitSet hero townId ty n now s1))"
    by auto
  then have "shape (factions s') = shape (factions s) \<and> tiles (worldMap s') = tiles (worldMap s)"
  proof cases
    case 1
    then show ?thesis by simp
  next
    case (2 hero fid q)
    obtain ok s1 where sp: "spendResources fid q s = (ok, s1)"
      by (cases "spendResources fid q s")
    with spendResources_shape[of fid q s]
    have s1: "shape (factions s1) = shape (factions s)" "worldMap s1 = worldMap s" by simp_all
    show ?thesis
    proof (cases ok)
      case True
      with 2 sp assms have "s' = recruitSet hero townId ty n now s1" by simp
      with s1 show ?thesis by (simp add: recruitSet_shape)
    next
      case False
      with 2 sp assms have "s' = s1" by simp
      with s1 show ?thesis by simp
    qed
  qed
  then show "shape (factions s') = shape (factions s)" "tiles (worldMap s') = tiles (worldMap s)"
    by simp_all
qed

lemma collect_shape: "shape (map (collect nodes) fs) = shape fs"
  by (rule shape_map) (simp add: collect_def)

lemma endTurn_shape:
  assumes "endTurn s = Inr (b, s')"
  shows "shape (factions s') = shape (factions s)" "worldMap s' = worldMap s"
proof -
  let ?fs = "factions s"
  let ?i = "findIndex (\<lambda>f. faction_id f = currentFaction s) ?fs"
  let ?n = "nat ((?i + 1) mod int (length ?fs))"
  let ?nodes = "map (nodeStore (worldMap s)) (resourceNodes (worldMap s))"
  from assms have ne: "?fs \<noteq> []" by (auto simp: endTurn_def split: if_splits)
  have rng: "- 1 \<le> ?i" "?i < int (length ?fs)" using findIndex_range[of _ ?fs] by auto
  have n_lt: "?n < length ?fs" using ne rng by (simp add: nat_less_iff)
  have upd: "shape (fs[?n := (fs ! ?n)\<lparr>heroes :=
                map (\<lambda>h. h\<lparr>movementPoints := maxMovementPoints h\<rparr>) (heroes (fs ! ?n))\<rparr>])
             = shape fs" if "length fs = length ?fs" for fs
    using that n_lt by (simp add: shape_def map_update list_update_same_conv comp_def)
  from assms ne show "worldMap s' = worldMap s"
    unfolding endTurn_def Let_def by (auto split: list.splits if_splits)
  from assms ne show "shape (factions s') = shape (factions s)"
    unfolding endTurn_def Let_def
    by (auto simp: upd collect_shape split: list.splits if_splits)
qed

lemma endCombat_shape:
  "shape (factions (endCombat result s)) = shape (factions s)"
  "worldMap (endCombat result s) = worldMap s"
  by (simp_all add: endCombat_def Let_def shape_updateHero shape_update_first levelUp_def
        split: option.splits)

lemma moveHero_shape:
  assumes "moveHero heroId target s = Inr (b, s')"
  shows "shape (factions s') = shape (factions s)" "worldMap s' = worldMap s"
  using assms
  by (auto simp: moveHero_def moveHeroSet_def Let_def shape_update_first update_first_map
           split: option.splits if_splits Cost.splits sum.splits)

lemma run_shape:
  assumes "run c s = Some s'"
  shows "shape (factions s') = shape (factions s) \<and> tiles (worldMap s') = tiles (worldMap s)"
proof (cases c)
  case (AddResources fid q)
  with assms show ?thesis by (auto simp: addResources_shape)
next
  case (SpendResources fid q)
  with assms show ?thesis by (auto simp: spendResources_shape)
next
  case (RecruitUnit townId ty n now)
  with assms obtain b where "recruitUnit townId ty n now s = Inr (b, s')"
    by (auto split: sum.splits)
  from recruitUnit_shape[OF this] show ?thesis by simp
next
  case EndTurn
  with assms obtain b where "endTurn s = Inr (b, s')" by (auto split: sum.splits)
  from endTurn_shape[OF this] show ?thesis by simp
next
  case (EndCombat result)
  with assms show ?thesis by (auto simp: endCombat_shape)
next
  case (MoveHero heroId target)
  with assms obtain b where "moveHero heroId target s = Inr (b, s')"
    by (auto split: sum.splits)
  from moveHero_shape[OF this] show ?thesis by simp
next
  case (SelectHero h)
  with assms show ?thesis by (auto simp: selectHero_def)
next
  case (StartCombat a d)
  with assms show ?thesis by (auto simp: startCombat_frame)
next
  case (ExecuteCombatAction now action)
  with assms show ?thesis by (auto simp: executeCombatAction_frame)
next
  case (RunAutoBattle rnd clock)
  with assms show ?thesis by (auto simp: runAutoBattle_frame)
next
  case (EnterTown t)
  with assms show ?thesis by (auto simp: enterTown_def split: option.splits)
next
  case LeaveTown
  with assms show ?thesis by (auto simp: leaveTown_def)
qed

lemma initGame_wellformed:
  assumes "initGame seedrandom noise now config s0 = Some s"
  shows "tilesOk (tiles (worldMap s)) \<and> rosterConsistent (factions s)"
proof -
  let ?cfg = "(getDefaultWorldGenConfig (Some (seedOr (gameSeed config) now)) now)
                \<lparr>cfg_width := sizeOr (mapWidth config), cfg_height := sizeOr (mapHeight config)\<rparr>"
  from assms obtain wm where g: "generateWorld seedrandom noise ?cfg = Some wm"
    and f: "factions s = createInitialFactions wm
                           (newSeededRandom seedrandom (seedOr (gameSeed config) now))"
    and w: "worldMap s = wm"
    by (auto simp: initGame_def Let_def split: option.splits)
  from generateWorld_ok[OF g] w f show ?thesis
    by (simp add: createInitialFactions_consistent)
qed

lemma reachable_wellformed:
  assumes "reachable allowed seedrandom noise s"
  shows "costsNonneg s \<and> rosterConsistent (factions s)"
proof -
  from assms have "tilesOk (tiles (worldMap s)) \<and> rosterConsistent (factions s)"
  proof (induction rule: reachable.induct)
    case (init now config s)
    then show ?case by (rule initGame_wellformed)
  next
    case (again s0 now config s)
    from again(2) show ?case by (rule initGame_wellformed)
  next
    case (step s c s')
    from run_shape[OF step(3)] step(4) show ?case
      by (auto intro: shape_rosterConsistent)
  qed
  then show ?thesis by (simp add: tilesOk_costsNonneg)
qed

end
